theory Spec2Isabelle
  imports Main "HOL-Library.Sublist"
begin

section \<open>Values shared by the whole module\<close>

text \<open>
  A JavaScript \<open>Error\<close> with its message. Every \<open>throw\<close> and every rejected promise of
  \<open>src/index.ts\<close> is an \<open>Inl\<close> of this type in the model.
\<close>

datatype error = Error string

text \<open>
  JavaScript truthiness, for the two kinds of value the module tests with \<open>!\<close> and
  \<open>||\<close>: a \<open>string | undefined\<close> is falsy when it is \<open>undefined\<close> or the empty string, a
  \<open>boolean | undefined\<close> when it is \<open>undefined\<close> or \<open>false\<close>.
\<close>

definition falsy :: "string option \<Rightarrow> bool" where
  "falsy s = (s = None \<or> s = Some [])"

definition falsy_bool :: "bool option \<Rightarrow> bool" where
  "falsy_bool b = (b = None \<or> b = Some False)"

text \<open>\<open>a || b\<close> on a \<open>string | undefined\<close> and a string.\<close>

definition or_else :: "string option \<Rightarrow> string \<Rightarrow> string" where
  "or_else a b = (case a of None \<Rightarrow> b | Some s \<Rightarrow> if s = [] then b else s)"

section \<open>Statements and notifications\<close>

text \<open>
  An RDF/JS term carries a \<open>termType\<close> and a \<open>value\<close>; a \<open>Quad\<close> has four of them.
  The module only ever reads \<open>.value\<close> of subject, predicate and object.
\<close>

record rdf_term =
  termType :: string
  val :: string

record quad =
  subject :: rdf_term
  predicate :: rdf_term
  object :: rdf_term
  graph :: rdf_term

definition RDF_NS :: string where
  "RDF_NS = ''http://www.w3.org/1999/02/22-rdf-syntax-ns#''"

definition AS_NS :: string where
  "AS_NS = ''https://www.w3.org/ns/activitystreams#''"

definition AS_types :: "string list" where
  "AS_types = map (\<lambda>k. AS_NS @ k)
     [''Create'', ''Update'', ''Remove'', ''Announce'', ''Offer'', ''Accept'', ''Reject'']"

text \<open>
  \<open>INotification\<close>: the field \<open>id\<close> is declared \<open>string\<close> but stays \<open>undefined\<close> when no
  statement sets it, hence the option. (\<open>id_n\<close>, since \<open>id\<close> is HOL's identity.)
\<close>

record INotification =
  quads :: "quad list"
  id_n :: "string option"

text \<open>
  What a Node stream delivers to its listeners, in order: \<open>'data'\<close> chunks, \<open>'error'\<close>,
  \<open>'end'\<close>.
\<close>

datatype 'a stream_event = Data 'a | Failed error | End

section \<open>parseNotification\<close>

text \<open>
  The condition of lines 42-43 on one quad: the predicate is \<open>rdf:type\<close> and the object
  is one of \<open>AS_types\<close>.
\<close>

definition is_activity_type :: "quad \<Rightarrow> bool" where
  "is_activity_type quad =
     (val (predicate quad) = RDF_NS @ ''type'' \<and> val (object quad) \<in> set AS_types)"

text \<open>
  The three listeners of \<open>parseNotification\<close>, run over the events the parser delivers.
  The local variables \<open>quads\<close> and \<open>id\<close> are the accumulators \<open>qs\<close> and \<open>ident\<close>. \<open>'data'\<close> pushes the
  quad and sets \<open>id\<close> when \<open>!id\<close> holds and the quad qualifies; \<open>'error'\<close> rejects;
  \<open>'end'\<close> resolves with \<open>{id, quads}\<close>. A promise settles once, so the first of
  \<open>'error'\<close> and \<open>'end'\<close> decides; a stream that delivers neither leaves the promise
  pending for ever, which is \<open>None\<close>. The object resolved holds the value \<open>id\<close> has at
  \<open>'end'\<close> and the array \<open>quads\<close> itself: a quad that a stream delivers after its
  \<open>'end'\<close>, against the protocol of streams, is still pushed to that array, and so
  is in the notification.
\<close>

fun pushed_later :: "quad stream_event list \<Rightarrow> quad list" where
  "pushed_later [] = []"
| "pushed_later (Data quad # evs) = quad # pushed_later evs"
| "pushed_later (Failed e # evs) = pushed_later evs"
| "pushed_later (End # evs) = pushed_later evs"

fun listeners :: "quad stream_event list \<Rightarrow> quad list \<Rightarrow> string option
    \<Rightarrow> (error + INotification) option" where
  "listeners [] qs ident = None"
| "listeners (Data quad # evs) qs ident =
     listeners evs (qs @ [quad])
       (if falsy ident \<and> is_activity_type quad then Some (val (subject quad)) else ident)"
| "listeners (Failed e # evs) qs ident = Some (Inl e)"
| "listeners (End # evs) qs ident =
     Some (Inr \<lparr>quads = qs @ pushed_later evs, id_n = ident\<rparr>)"

text \<open>
  \<open>jsonldParser.import(stream)\<close> is the events the parser delivers for the stream; the
  parser is the function from the one to the other.
\<close>

definition parseNotification :: "'s \<Rightarrow> ('s \<Rightarrow> quad stream_event list)
    \<Rightarrow> (error + INotification) option" where
  "parseNotification stream jsonldParser = listeners (jsonldParser stream) [] None"

section \<open>HTTP, sessions and the libraries the module calls\<close>

text \<open>
  A request as \<open>fetch(url, init)\<close> receives it, and the part of a \<open>Response\<close> the module
  reads: \<open>ok\<close>, \<open>url\<close>, \<open>headers.get(name)\<close> (a lookup by lower-case header name, \<open>null\<close>
  when the header is absent) and \<open>text()\<close>, which may reject.
\<close>

record request =
  req_url :: string
  req_method :: string
  req_body :: "string option"
  req_headers :: "(string \<times> string) list"

record response =
  ok :: bool
  resp_url :: string
  headers_get :: "string \<Rightarrow> string option"
  body_text :: "error + string"

text \<open>\<open>fetch(url)\<close> with no \<open>init\<close>: a GET without body or headers of the caller's.\<close>

definition plain_get :: "string \<Rightarrow> request" where
  "plain_get u = \<lparr>req_url = u, req_method = ''GET'', req_body = None, req_headers = []\<rparr>"

text \<open>
  The remote side changes between calls, so a fetch function reads the state \<open>'w\<close> of the
  world at the time of the call. It returns a response or throws.
\<close>

type_synonym 'w fetch_fn = "'w \<Rightarrow> request \<Rightarrow> error + response"

record 'w SessionInfo =
  s_fetch :: "'w fetch_fn"
  s_webId :: "string option"

text \<open>The one field of a listing entry the module reads.\<close>

record item =
  url :: string

record 'w fetchOptions =
  fo_fetch :: "'w fetch_fn option"
  fo_verbose :: bool

text \<open>
  The options object of \<open>create\<close>, \<open>sendNotification\<close> and \<open>login\<close>. The three declare
  different optional fields; at run time it is one object, handed on as it is.
\<close>

record login_options =
  name :: string
  email :: string
  password :: string
  idp :: string
  authUrl :: "string option"
  clientCredentialsTokenStorageLocation :: "string option"
  o_cachePath :: "string option"

text \<open>
  The functions imported from \<open>solid-bashlib\<close>, \<open>jsonld-streaming-parser\<close>,
  \<open>@rdfjs/serializer-jsonld-ext\<close> and \<open>krieven-data-file\<close>/\<open>fs\<close> are parameters of the
  model, each returning its value or the error it throws:
  \<^item> \<open>generateCSSToken(options)\<close> and \<open>authenticateToken(token, baseUrl)\<close>;
  \<^item> \<open>list(url, fetchOptions)\<close>, in the world of the moment;
  \<^item> \<open>JsonLdParser.fromHttpResponse(baseIRI, mediaType)\<close>, giving a parser, that is the
    events it delivers for a body;
  \<^item> the JSON-LD serializer, giving the events of its output stream for the quads
    written to it;
  \<^item> opening the cache file at a path (creating its directory first).
\<close>

record ('w, 'tok, 'st) libs =
  generateCSSToken :: "login_options \<Rightarrow> error + 'tok"
  authenticateToken :: "'tok \<Rightarrow> string \<Rightarrow> error + 'w SessionInfo"
  list_l :: "'w \<Rightarrow> string \<Rightarrow> 'w fetchOptions \<Rightarrow> error + item list"
  fromHttpResponse :: "string \<Rightarrow> string \<Rightarrow> error + (string \<Rightarrow> quad stream_event list)"
  serializerJsonld :: "quad list \<Rightarrow> string stream_event list"
  open_store :: "string \<Rightarrow> error + 'st"

section \<open>login, serialize, sendNotification\<close>

definition login :: "('w, 'tok, 'st, 'x) libs_scheme \<Rightarrow> string \<Rightarrow> login_options
    \<Rightarrow> error + 'w SessionInfo" where
  "login L baseUrl options =
     (case generateCSSToken L options of
        Inl e \<Rightarrow> Inl e
      | Inr token \<Rightarrow>
          (case authenticateToken L token baseUrl of
             Inl e \<Rightarrow> Inl e
           | Inr s \<Rightarrow> Inr \<lparr>s_fetch = s_fetch s, s_webId = s_webId s\<rparr>))"

text \<open>
  The listeners of \<open>serialize\<close> on the serializer's output: \<open>'data'\<close> appends to
  \<open>result\<close>, \<open>'error'\<close> rejects, \<open>'end'\<close> resolves with \<open>result\<close>.
\<close>

fun output_listeners :: "string stream_event list \<Rightarrow> string \<Rightarrow> (error + string) option" where
  "output_listeners [] result = None"
| "output_listeners (Data jsonld # evs) result = output_listeners evs (result @ jsonld)"
| "output_listeners (Failed e # evs) result = Some (Inl e)"
| "output_listeners (End # evs) result = Some (Inr result)"

definition serialize :: "('w, 'tok, 'st, 'x) libs_scheme \<Rightarrow> INotification
    \<Rightarrow> (error + string) option" where
  "serialize L notification = output_listeners (serializerJsonld L (quads notification)) []"

record send_result =
  success :: bool
  location :: "string option"

text \<open>
  \<open>sendNotification\<close>: log in at \<open>options.authUrl || options.idp || inboxUrl\<close>, serialize,
  POST. \<open>None\<close> is a call that never returns (the serializer never ends).
\<close>

definition sendNotification :: "('w, 'tok, 'st, 'x) libs_scheme \<Rightarrow> 'w \<Rightarrow> INotification
    \<Rightarrow> string \<Rightarrow> login_options \<Rightarrow> (error + send_result) option" where
  "sendNotification L wld notification inboxUrl options =
     (case login L (or_else (authUrl options) (or_else (Some (idp options)) inboxUrl)) options of
        Inl e \<Rightarrow> Some (Inl e)
      | Inr session \<Rightarrow>
          (case serialize L notification of
             None \<Rightarrow> None
           | Some (Inl e) \<Rightarrow> Some (Inl e)
           | Some (Inr result) \<Rightarrow>
               (case s_fetch session wld
                       \<lparr>req_url = inboxUrl, req_method = ''POST'', req_body = Some result,
                        req_headers = [(''content-type'', ''application/ld+json'')]\<rparr> of
                  Inl e \<Rightarrow> Some (Inl e)
                | Inr response \<Rightarrow>
                    Some (Inr \<lparr>success = ok response,
                               location = headers_get response ''location''\<rparr>))))"

section \<open>The cache\<close>

text \<open>
  Modelled from the spec: the class \<open>Store\<close> of the package \<open>krieven-data-file\<close> is not
  part of the sources. Section 4.2 gives its contract: a persistent keyed set of values,
  where a key that was put is found again and the others are untouched. The model is a
  finite map. The watcher's store is a \<open>Store<boolean>\<close>; the key it passes is declared
  \<open>string\<close> but is \<open>undefined\<close> for a notification without \<open>id\<close>, hence the option,
  with \<open>undefined\<close> a key like any other.
\<close>

type_synonym key = "string option"

type_synonym store = "key \<Rightarrow> bool option"

definition store_get :: "store \<Rightarrow> key \<Rightarrow> bool option" where
  "store_get d k = d k"

definition store_put :: "store \<Rightarrow> key \<Rightarrow> bool \<Rightarrow> store" where
  "store_put d k v = d(k \<mapsto> v)"

text \<open>The two operations of section 4.2, in the spec's names, as the watcher uses the store.\<close>

definition has :: "store \<Rightarrow> key \<Rightarrow> bool" where
  "has d k = (\<not> falsy_bool (store_get d k))"

definition markSeen :: "store \<Rightarrow> key \<Rightarrow> store" where
  "markSeen d k = store_put d k True"

section \<open>InboxWatcher\<close>

text \<open>
  What the outside observes of a watcher, in order: a \<open>'notification'\<close> event given to
  the listeners, a \<open>put\<close> on the store. The listeners and the store are taken to
  return: a listener that throws inside \<open>emit\<close>, or a \<open>put\<close> that throws, is not
  modelled.
\<close>

datatype effect = Emit INotification | Put key

text \<open>
  The fields of the class. \<open>trace\<close> is not one of them: it records the effects of the
  instance so far, oldest first.
\<close>

record 'w InboxWatcher =
  webId :: "string option"
  fetch :: "'w fetch_fn option"
  freq :: nat
  stopPolling :: bool
  db :: "store option"
  trace :: "effect list"

record watcher_options =
  cache :: "bool option"
  cachePath :: "string option"
  inboxPath :: "string option"

text \<open>\<open>{}\<close>, the default of the constructor's second parameter.\<close>

definition no_options :: watcher_options where
  "no_options = \<lparr>cache = None, cachePath = None, inboxPath = None\<rparr>"

text \<open>
  The private constructor. With \<open>options.cache\<close> truthy it opens the store at
  \<open>options.cachePath || './.cache/cache.dsb'\<close>, and throws when that fails; otherwise
  \<open>db\<close> stays \<open>undefined\<close>.
\<close>

definition constructor :: "('w, 'tok, store, 'x) libs_scheme \<Rightarrow> 'w SessionInfo
    \<Rightarrow> watcher_options \<Rightarrow> error + 'w InboxWatcher" where
  "constructor L session options =
     (let this = \<lparr>webId = s_webId session, fetch = Some (s_fetch session), freq = 1000,
                  stopPolling = False, db = None, trace = []\<rparr>
      in if \<not> falsy_bool (cache options)
         then (case open_store L (or_else (cachePath options) ''./.cache/cache.dsb'') of
                 Inl e \<Rightarrow> Inl e
               | Inr d \<Rightarrow> Inr (this\<lparr>db := Some d\<rparr>))
         else Inr this)"

text \<open>\<open>InboxWatcher.create\<close>: \<open>new InboxWatcher(session)\<close>, the options left at their default.\<close>

definition create :: "('w, 'tok, store, 'x) libs_scheme \<Rightarrow> string \<Rightarrow> login_options
    \<Rightarrow> error + 'w InboxWatcher" where
  "create L baseUrl options =
     (case login L baseUrl options of
        Inl e \<Rightarrow> Inl e
      | Inr session \<Rightarrow> constructor L session no_options)"

text \<open>
  \<open>stop()\<close>. (\<open>init\<close>, which creates the inbox container and sets its permissions,
  touches none of the fields and is left out.)
\<close>

definition stop :: "'w InboxWatcher \<Rightarrow> 'w InboxWatcher" where
  "stop this = this\<lparr>stopPolling := True\<rparr>"

subsection \<open>One tick: the callback given to poll\<close>

text \<open>How an awaited step ends: it returns, it throws, or it never settles.\<close>

datatype outcome = Done | Threw error | Hung

text \<open>
  Lines 209-226 for one item: fetch it, build the parser from the response's url and
  \<open>content-type\<close> (\<open>application/ld+json\<close> when the header is absent or empty), read the
  body, parse it.
\<close>

definition fetch_and_parse :: "('w, 'tok, 'st, 'x) libs_scheme \<Rightarrow> 'w \<Rightarrow> 'w fetch_fn \<Rightarrow> item
    \<Rightarrow> (error + INotification) option" where
  "fetch_and_parse L wld f it =
     (case f wld (plain_get (url it)) of
        Inl e \<Rightarrow> Some (Inl e)
      | Inr response \<Rightarrow>
          (case fromHttpResponse L (resp_url response)
                  (or_else (headers_get response ''content-type'') ''application/ld+json'') of
             Inl e \<Rightarrow> Some (Inl e)
           | Inr jsonldParser \<Rightarrow>
               (case body_text response of
                  Inl e \<Rightarrow> Some (Inl e)
                | Inr bodyStream \<Rightarrow> parseNotification bodyStream jsonldParser)))"

text \<open>Line 229.\<close>

definition idToCheck :: "string \<Rightarrow> item \<Rightarrow> INotification \<Rightarrow> key" where
  "idToCheck strategy it notification =
     (if strategy = ''notification_id'' then Some (url it) else id_n notification)"

text \<open>Lines 230-233: \<open>if (this.db && !this.db.get(idToCheck)) { emit; put }\<close>.\<close>

definition deliver :: "'w InboxWatcher \<Rightarrow> key \<Rightarrow> INotification \<Rightarrow> 'w InboxWatcher" where
  "deliver this k notification =
     (case db this of
        None \<Rightarrow> this
      | Some d \<Rightarrow>
          if falsy_bool (store_get d k)
          then this\<lparr>trace := trace this @ [Emit notification, Put k],
                    db := Some (store_put d k True)\<rparr>
          else this)"

text \<open>The body of the \<open>for\<close> loop for one item, \<open>if (this.fetch)\<close> included.\<close>

definition process_item :: "('w, 'tok, 'st, 'x) libs_scheme \<Rightarrow> 'w \<Rightarrow> string \<Rightarrow> 'w InboxWatcher
    \<Rightarrow> item \<Rightarrow> 'w InboxWatcher \<times> outcome" where
  "process_item L wld strategy this it =
     (case fetch this of
        None \<Rightarrow> (this, Done)
      | Some f \<Rightarrow>
          (case fetch_and_parse L wld f it of
             None \<Rightarrow> (this, Hung)
           | Some (Inl e) \<Rightarrow> (this, Threw e)
           | Some (Inr notification) \<Rightarrow>
               (deliver this (idToCheck strategy it notification) notification, Done)))"

text \<open>
  The \<open>for\<close> loop. Nothing in it catches: an item that throws ends the loop with what
  the earlier items did, and an item that never settles blocks it.
\<close>

fun process_items :: "('w, 'tok, 'st, 'x) libs_scheme \<Rightarrow> 'w \<Rightarrow> string \<Rightarrow> 'w InboxWatcher
    \<Rightarrow> item list \<Rightarrow> 'w InboxWatcher \<times> outcome" where
  "process_items L wld strategy this [] = (this, Done)"
| "process_items L wld strategy this (it # items) =
     (case process_item L wld strategy this it of
        (this', Done) \<Rightarrow> process_items L wld strategy this' items
      | (this', Threw e) \<Rightarrow> (this', Threw e)
      | (this', Hung) \<Rightarrow> (this', Hung))"

definition the_fetchOptions :: "'w InboxWatcher \<Rightarrow> 'w fetchOptions" where
  "the_fetchOptions this = \<lparr>fo_fetch = fetch this, fo_verbose = True\<rparr>"

text \<open>
  The callback. \<open>stopped_after\<close> places a call of \<open>stop()\<close> by the consumer inside the
  tick: \<open>Some k\<close> is a call made while the tick is suspended after its first \<open>k\<close> items
  (after the last one when the listing is shorter), \<open>None\<close> is no call.
\<close>

definition tick :: "('w, 'tok, 'st, 'x) libs_scheme \<Rightarrow> string \<Rightarrow> string \<Rightarrow> 'w \<Rightarrow> nat option
    \<Rightarrow> 'w InboxWatcher \<Rightarrow> 'w InboxWatcher \<times> outcome" where
  "tick L inboxUrl strategy wld stopped_after this =
     (case list_l L wld inboxUrl (the_fetchOptions this) of
        Inl e \<Rightarrow> (this, Threw e)
      | Inr items \<Rightarrow>
          (case stopped_after of
             None \<Rightarrow> process_items L wld strategy this items
           | Some k \<Rightarrow>
               (case process_items L wld strategy this (take k items) of
                  (this', Done) \<Rightarrow> process_items L wld strategy (stop this') (drop k items)
                | (this', Threw e) \<Rightarrow> (this', Threw e)
                | (this', Hung) \<Rightarrow> (this', Hung))))"

subsection \<open>The schedule\<close>

text \<open>
  One round of the schedule: the world during the tick, where in the tick the consumer
  calls \<open>stop()\<close> if it does, and whether it calls \<open>stop()\<close> during the delay that
  follows the tick.
\<close>

record 'w round =
  world :: 'w
  stop_in_tick :: "nat option"
  stop_in_delay :: bool

datatype schedule = Polling | Stopped | Rejected error | Blocked

text \<open>
  Modelled from the spec: the function \<open>poll\<close> of the package \<open>poll\<close> is not part of
  the sources. Section 4.3: a recurring tick at a fixed period; a new tick does not begin
  until the previous one has settled; the schedule observes the stop flag before starting
  each new tick and does not interrupt a tick in progress. \<open>poll fn delay
  shouldStopPolling\<close> awaits \<open>fn\<close>, asks \<open>shouldStopPolling\<close>, waits, asks again and goes
  round. Nothing in it or in \<open>start\<close> catches, so an awaited tick that rejects rejects
  the schedule, and one that never settles blocks it.
  The list holds the rounds looked at: at its end the schedule is still \<open>Polling\<close>.
  The length of the delay is real time and does not enter; \<open>in_delay\<close> is what the
  consumer does to the state during it.
\<close>

fun poll :: "('r \<Rightarrow> 's \<Rightarrow> 's \<times> outcome) \<Rightarrow> nat \<Rightarrow> ('s \<Rightarrow> bool) \<Rightarrow> ('r \<Rightarrow> 's \<Rightarrow> 's)
    \<Rightarrow> 'r list \<Rightarrow> 's \<Rightarrow> 's \<times> schedule" where
  "poll fn delay shouldStopPolling in_delay [] s = (s, Polling)"
| "poll fn delay shouldStopPolling in_delay (r # rs) s =
     (case fn r s of
        (s1, Threw e) \<Rightarrow> (s1, Rejected e)
      | (s1, Hung) \<Rightarrow> (s1, Blocked)
      | (s1, Done) \<Rightarrow>
          if shouldStopPolling s1 then (s1, Stopped)
          else let s2 = in_delay r s1
               in if shouldStopPolling s2 then (s2, Stopped)
                  else poll fn delay shouldStopPolling in_delay rs s2)"

text \<open>The default of the parameter \<open>strategy = 'activity'\<close>.\<close>

definition strategy_or_default :: "string option \<Rightarrow> string" where
  "strategy_or_default strategy_arg =
     (case strategy_arg of None \<Rightarrow> ''activity'' | Some s \<Rightarrow> s)"

text \<open>
  \<open>start(inboxUrl, strategy = 'activity')\<close>: clears the flag and hands the callback to
  \<open>poll\<close>. The call itself returns \<open>this\<close> at once; the result here is the watcher and
  the schedule after the given rounds.
\<close>

definition start :: "('w, 'tok, 'st, 'x) libs_scheme \<Rightarrow> string \<Rightarrow> string option \<Rightarrow> 'w round list
    \<Rightarrow> 'w InboxWatcher \<Rightarrow> 'w InboxWatcher \<times> schedule" where
  "start L inboxUrl strategy_arg rounds this =
     poll (\<lambda>r. tick L inboxUrl (strategy_or_default strategy_arg) (world r) (stop_in_tick r))
          (freq this)
          stopPolling
          (\<lambda>r w. if stop_in_delay r then stop w else w)
          rounds
          (this\<lparr>stopPolling := False\<rparr>)"

section \<open>Reading the trace\<close>

text \<open>
  The effects of deliveries, each an event followed by the \<open>put\<close> of its key, and the
  keys a strategy gives to a list of items with their notifications.
\<close>

definition pair_effects :: "(key \<times> INotification) list \<Rightarrow> effect list" where
  "pair_effects ps = concat (map (\<lambda>(k, n). [Emit n, Put k]) ps)"

definition keyed :: "string \<Rightarrow> (item \<times> INotification) list \<Rightarrow> (key \<times> INotification) list" where
  "keyed strategy ps = map (\<lambda>(it, n). (idToCheck strategy it n, n)) ps"

text \<open>
  What one run of the loop over \<open>items\<close> from \<open>this\<close> to \<open>t\<close> amounts to, given the
  items \<open>ps\<close> it delivered with their notifications: they are a subsequence of the
  items, each was fetched and parsed, the trace grew by their effects and the store by
  their keys, and the keys are distinct and were not in the store before.
\<close>

definition summary :: "('w, 'tok, 'st, 'x) libs_scheme \<Rightarrow> 'w \<Rightarrow> string \<Rightarrow> 'w InboxWatcher
    \<Rightarrow> item list \<Rightarrow> 'w InboxWatcher \<Rightarrow> (item \<times> INotification) list \<Rightarrow> bool" where
  "summary L w s this items t ps \<longleftrightarrow>
     subseq (map fst ps) items \<and>
     (\<forall>(it, n)\<in>set ps. \<exists>f. fetch this = Some f \<and> fetch_and_parse L w f it = Some (Inr n)) \<and>
     t = this\<lparr>trace := trace this @ pair_effects (keyed s ps),
              db := (case db this of
                       None \<Rightarrow> None
                     | Some d \<Rightarrow> Some (fold (\<lambda>p d. markSeen d (fst p)) (keyed s ps) d))\<rparr> \<and>
     (db this = None \<longrightarrow> ps = []) \<and>
     distinct (map fst (keyed s ps)) \<and>
     (\<forall>d. db this = Some d \<longrightarrow> (\<forall>k\<in>fst ` set (keyed s ps). \<not> has d k))"

text \<open>
  The deliveries a store \<open>d\<close> calls for, given the keys and notifications \<open>all\<close> of a
  listing in listing order: the pairs at the positions whose key is not marked in \<open>d\<close>
  and does not occur at an earlier position. \<open>mark_all\<close> is the store after the keys of
  the pairs have been marked.
\<close>

definition first_unmarked :: "store \<Rightarrow> (key \<times> 'a) list \<Rightarrow> nat \<Rightarrow> bool" where
  "first_unmarked d all i \<longleftrightarrow>
     \<not> has d (fst (all ! i)) \<and> fst (all ! i) \<notin> fst ` set (take i all)"

definition deliveries :: "store \<Rightarrow> (key \<times> 'a) list \<Rightarrow> (key \<times> 'a) list" where
  "deliveries d all = map (\<lambda>i. all ! i) (filter (first_unmarked d all) [0..<length all])"

definition mark_all :: "store \<Rightarrow> (key \<times> 'a) list \<Rightarrow> store" where
  "mark_all d ps = fold (\<lambda>p d. markSeen d (fst p)) ps d"

section \<open>Concrete values\<close>

definition iri :: "string \<Rightarrow> rdf_term" where
  "iri v = \<lparr>termType = ''NamedNode'', val = v\<rparr>"

definition triple :: "string \<Rightarrow> string \<Rightarrow> string \<Rightarrow> quad" where
  "triple s p ob = \<lparr>subject = iri s, predicate = iri p, object = iri ob,
                    graph = \<lparr>termType = ''DefaultGraph'', val = []\<rparr>\<rparr>"

definition rdf_type :: string where
  "rdf_type = ''http://www.w3.org/1999/02/22-rdf-syntax-ns#type''"

definition as_Create :: string where
  "as_Create = ''https://www.w3.org/ns/activitystreams#Create''"

definition as_Update :: string where
  "as_Update = ''https://www.w3.org/ns/activitystreams#Update''"

text \<open>
  A parser for five bodies: \<open>b1\<close> and \<open>b2\<close> hold a \<open>Create\<close> of the same subject
  \<open>urn:n1\<close>, \<open>b3\<close> and \<open>b4\<close> hold no typed statement, \<open>b5\<close> holds a \<open>Create\<close> of
  \<open>urn:n5\<close>; any other body is malformed.
\<close>

definition ex_parser :: "string \<Rightarrow> quad stream_event list" where
  "ex_parser body =
     (if body = ''b1'' then
        [Data (triple ''urn:a'' ''urn:p'' ''urn:o''),
         Data (triple ''urn:n1'' rdf_type as_Create),
         Data (triple ''urn:n2'' rdf_type as_Update), End]
      else if body = ''b2'' then [Data (triple ''urn:n1'' rdf_type as_Create), End]
      else if body = ''b3'' then [Data (triple ''urn:s3'' ''urn:p'' ''urn:o''), End]
      else if body = ''b4'' then [Data (triple ''urn:s4'' ''urn:p'' ''urn:o''), End]
      else if body = ''b5'' then [Data (triple ''urn:n5'' rdf_type as_Create), End]
      else [Failed (Error ''malformed'')])"

text \<open>A parser whose first typed statement has the empty string as its subject's value.\<close>

definition empty_subject_parser :: "string \<Rightarrow> quad stream_event list" where
  "empty_subject_parser body =
     [Data (triple [] rdf_type as_Create), Data (triple ''urn:n2'' rdf_type as_Update), End]"

text \<open>
  A world is the list of resources the inbox holds. A resource \<open>urn:bN\<close> has the body
  \<open>bN\<close>; \<open>urn:bad\<close> cannot be fetched. A POST is answered with a \<open>Location\<close>.
\<close>

definition ex_fetch :: "item list fetch_fn" where
  "ex_fetch w req =
     (if req_method req = ''POST''
      then Inr \<lparr>ok = True, resp_url = req_url req,
                headers_get = (\<lambda>h. if h = ''location'' then Some ''urn:inbox/1'' else None),
                body_text = Inr []\<rparr>
      else if req_url req = ''urn:bad'' then Inl (Error ''fetch failed'')
      else Inr \<lparr>ok = True, resp_url = req_url req, headers_get = (\<lambda>h. None),
                body_text = Inr (drop 4 (req_url req))\<rparr>)"

definition ex_libs :: "(item list, string, store) libs" where
  "ex_libs =
     \<lparr>generateCSSToken = (\<lambda>options. Inr (name options)),
      authenticateToken = (\<lambda>token baseUrl. Inr \<lparr>s_fetch = ex_fetch, s_webId = Some token\<rparr>),
      list_l = (\<lambda>w u fo. Inr w),
      fromHttpResponse = (\<lambda>baseIRI mediaType.
         if mediaType = ''application/ld+json'' then Inr ex_parser
         else Inl (Error ''unsupported media type'')),
      serializerJsonld = (\<lambda>qs. [Data ''{'', Data ''}'', End]),
      open_store = (\<lambda>path. Inr Map.empty)\<rparr>"

definition ex_options :: login_options where
  "ex_options = \<lparr>name = ''alice'', email = ''alice@example.org'', password = ''secret'',
                 idp = ''urn:idp'', authUrl = None,
                 clientCredentialsTokenStorageLocation = None,
                 o_cachePath = Some ''./my/cache.dsb''\<rparr>"

definition ex_watcher :: "item list InboxWatcher" where
  "ex_watcher = \<lparr>webId = Some ''alice'', fetch = Some ex_fetch, freq = 1000,
                 stopPolling = False, db = None, trace = []\<rparr>"

definition caching_watcher :: "item list InboxWatcher" where
  "caching_watcher = ex_watcher\<lparr>db := Some Map.empty\<rparr>"

definition seen_watcher :: "item list InboxWatcher" where
  "seen_watcher = ex_watcher\<lparr>db := Some (Map.empty(Some ''urn:n1'' \<mapsto> True))\<rparr>"

definition res :: "string \<Rightarrow> item" where
  "res u = \<lparr>url = u\<rparr>"

definition quiet :: "'w \<Rightarrow> 'w round" where
  "quiet w = \<lparr>world = w, stop_in_tick = None, stop_in_delay = False\<rparr>"

definition ex_n1 :: INotification where
  "ex_n1 = \<lparr>quads = [triple ''urn:a'' ''urn:p'' ''urn:o'', triple ''urn:n1'' rdf_type as_Create,
                      triple ''urn:n2'' rdf_type as_Update],
            id_n = Some ''urn:n1''\<rparr>"

definition ex_n2 :: INotification where
  "ex_n2 = \<lparr>quads = [triple ''urn:n1'' rdf_type as_Create], id_n = Some ''urn:n1''\<rparr>"

definition ex_n3 :: INotification where
  "ex_n3 = \<lparr>quads = [triple ''urn:s3'' ''urn:p'' ''urn:o''], id_n = None\<rparr>"

definition ex_n4 :: INotification where
  "ex_n4 = \<lparr>quads = [triple ''urn:s4'' ''urn:p'' ''urn:o''], id_n = None\<rparr>"

definition ex_n5 :: INotification where
  "ex_n5 = \<lparr>quads = [triple ''urn:n5'' rdf_type as_Create], id_n = Some ''urn:n5''\<rparr>"

section \<open>Ingestion\<close>

lemma is_activity_type_iff:
  "is_activity_type q \<longleftrightarrow>
     val (predicate q) = ''http://www.w3.org/1999/02/22-rdf-syntax-ns#type'' \<and>
     val (object q) \<in> {''https://www.w3.org/ns/activitystreams#Create'',
                        ''https://www.w3.org/ns/activitystreams#Update'',
                        ''https://www.w3.org/ns/activitystreams#Remove'',
                        ''https://www.w3.org/ns/activitystreams#Announce'',
                        ''https://www.w3.org/ns/activitystreams#Offer'',
                        ''https://www.w3.org/ns/activitystreams#Accept'',
                        ''https://www.w3.org/ns/activitystreams#Reject''}"
  by (simp add: is_activity_type_def RDF_NS_def AS_types_def AS_NS_def)

lemma is_activity_type_triple [simp]:
  "is_activity_type (triple s rdf_type as_Create)"
  "is_activity_type (triple s rdf_type as_Update)"
  "\<not> is_activity_type (triple s ''urn:p'' ob)"
  by (simp_all add: is_activity_type_iff triple_def iri_def rdf_type_def as_Create_def
      as_Update_def)

lemma subject_triple [simp]: "val (subject (triple s p ob)) = s"
  by (simp add: triple_def iri_def)




text \<open>
  The guard of line 41 is \<open>!id\<close>, which holds of the empty string as it does of
  \<open>undefined\<close>. A term whose value is the empty string is not an RDF term; were one
  delivered as the subject of the first typed statement, the next typed statement would
  replace the \<open>id\<close>.
\<close>

lemma parseNotification_empty_subject_value:
  "find is_activity_type [triple [] rdf_type as_Create, triple ''urn:n2'' rdf_type as_Update]
     = Some (triple [] rdf_type as_Create)
   \<and> empty_subject_parser ''b'' =
       map Data [triple [] rdf_type as_Create, triple ''urn:n2'' rdf_type as_Update] @ [End]
   \<and> parseNotification ''b'' empty_subject_parser =
       Some (Inr \<lparr>quads = [triple [] rdf_type as_Create, triple ''urn:n2'' rdf_type as_Update],
                 id_n = Some ''urn:n2''\<rparr>)
   \<and> Some ''urn:n2'' \<noteq> Some (val (subject (triple [] rdf_type as_Create)))"
  by (simp add: parseNotification_def empty_subject_parser_def falsy_def)

section \<open>The loop over the listed items\<close>

lemma pair_effects_simps [simp]:
  "pair_effects [] = []"
  "pair_effects ((k, n) # ps) = Emit n # Put k # pair_effects ps"
  "pair_effects (ps @ qs) = pair_effects ps @ pair_effects qs"
  by (simp_all add: pair_effects_def)

lemma keyed_simps [simp]:
  "keyed s [] = []"
  "keyed s ((it, n) # ps) = (idToCheck s it n, n) # keyed s ps"
  by (simp_all add: keyed_def)

lemma deliver_eq:
  "deliver this k n =
     (case db this of
        None \<Rightarrow> this
      | Some d \<Rightarrow> if has d k then this
                  else this\<lparr>trace := trace this @ [Emit n, Put k], db := Some (markSeen d k)\<rparr>)"
  by (simp add: deliver_def has_def markSeen_def split: option.splits)

lemma has_markSeen: "has (markSeen d k) k' \<longleftrightarrow> k' = k \<or> has d k'"
  by (auto simp: has_def markSeen_def store_put_def store_get_def falsy_bool_def)

lemma process_item_cases:
  assumes "process_item L w s this it = (t, out)"
  shows "t = this \<or>
         (\<exists>d n f. out = Done \<and> db this = Some d \<and> fetch this = Some f \<and>
            fetch_and_parse L w f it = Some (Inr n) \<and> \<not> has d (idToCheck s it n) \<and>
            t = this\<lparr>trace := trace this @ [Emit n, Put (idToCheck s it n)],
                     db := Some (markSeen d (idToCheck s it n))\<rparr>)"
  using assms
  by (auto simp: process_item_def deliver_eq split: option.splits sum.splits if_splits)

lemma process_item_not_Done:
  assumes "process_item L w s this it = (t, out)" and "out \<noteq> Done"
  shows "t = this"
  using process_item_cases [OF assms(1)] assms(2) by auto

lemma summary_Nil: "summary L w s this items this []"
  by (simp add: summary_def split: option.splits)

lemma summary_skip:
  "summary L w s this items t ps \<Longrightarrow> summary L w s this (it # items) t ps"
  by (auto simp: summary_def)

lemma summary_emit:
  assumes rest: "summary L w s t1 items t ps"
    and d: "db this = Some d" and f: "fetch this = Some f"
    and n: "fetch_and_parse L w f it = Some (Inr n)"
    and new: "\<not> has d (idToCheck s it n)"
    and t1: "t1 = this\<lparr>trace := trace this @ [Emit n, Put (idToCheck s it n)],
                     db := Some (markSeen d (idToCheck s it n))\<rparr>"
  shows "summary L w s this (it # items) t ((it, n) # ps)"
proof -
  have fresh1: "\<forall>k\<in>fst ` set (keyed s ps). k \<noteq> idToCheck s it n \<and> \<not> has d k"
    using rest t1 by (simp add: summary_def has_markSeen)
  have "subseq (map fst ((it, n) # ps)) (it # items)"
    using rest by (simp add: summary_def)
  moreover have "\<forall>(it, n)\<in>set ((it, n) # ps).
               \<exists>f. fetch this = Some f \<and> fetch_and_parse L w f it = Some (Inr n)"
    using rest f n t1 by (simp add: summary_def)
  moreover have "t = this\<lparr>trace := trace this @ pair_effects (keyed s ((it, n) # ps)),
                db := (case db this of
                         None \<Rightarrow> None
                       | Some d \<Rightarrow>
                           Some (fold (\<lambda>p d. markSeen d (fst p)) (keyed s ((it, n) # ps)) d))\<rparr>"
    using rest t1 d by (simp add: summary_def)
  moreover have "distinct (map fst (keyed s ((it, n) # ps)))"
    using rest fresh1 by (auto simp: summary_def)
  moreover have "\<forall>d. db this = Some d \<longrightarrow>
                (\<forall>k\<in>fst ` set (keyed s ((it, n) # ps)). \<not> has d k)"
    using d new fresh1 by auto
  ultimately show ?thesis using d unfolding summary_def by (intro conjI; simp)
qed

lemma process_items_summary:
  assumes "process_items L w s this items = (t, out)"
  shows "\<exists>ps. summary L w s this items t ps"
  using assms
proof (induction items arbitrary: this)
  case Nil
  then have "t = this" by simp
  then show ?case by (auto intro: summary_Nil)
next
  case (Cons it items)
  obtain t1 o1 where step: "process_item L w s this it = (t1, o1)"
    by (cases "process_item L w s this it")
  show ?case
  proof (cases "o1 = Done")
    case False
    with step Cons.prems have "t = t1" by (cases o1) simp_all
    moreover from step False have "t1 = this" by (rule process_item_not_Done)
    ultimately have "t = this" by simp
    then show ?thesis by (auto intro: summary_Nil)
  next
    case True
    with step Cons.prems have rest: "process_items L w s t1 items = (t, out)" by simp
    from Cons.IH [OF rest] obtain ps where ps: "summary L w s t1 items t ps" ..
    from process_item_cases [OF step] show ?thesis
    proof
      assume "t1 = this"
      with ps have "summary L w s this (it # items) t ps" by (simp add: summary_skip)
      then show ?thesis ..
    next
      assume "\<exists>d n f. o1 = Done \<and> db this = Some d \<and> fetch this = Some f \<and>
            fetch_and_parse L w f it = Some (Inr n) \<and> \<not> has d (idToCheck s it n) \<and>
            t1 = this\<lparr>trace := trace this @ [Emit n, Put (idToCheck s it n)],
                     db := Some (markSeen d (idToCheck s it n))\<rparr>"
      then obtain d n f where
        "db this = Some d" "fetch this = Some f"
        "fetch_and_parse L w f it = Some (Inr n)"
        "\<not> has d (idToCheck s it n)"
        "t1 = this\<lparr>trace := trace this @ [Emit n, Put (idToCheck s it n)],
                     db := Some (markSeen d (idToCheck s it n))\<rparr>"
        by (elim exE conjE)
      from summary_emit [OF ps this] show ?thesis ..
    qed
  qed
qed


lemma summary_fields:
  assumes "summary L w s this items t ps"
  shows "fetch t = fetch this" and "stopPolling t = stopPolling this"
    and "webId t = webId this" and "freq t = freq this"
  using assms by (simp_all add: summary_def)

lemma summary_no_db:
  assumes "summary L w s this items t ps" and "db this = None"
  shows "t = this"
  using assms by (simp add: summary_def)

lemma process_items_no_db:
  assumes "db this = None"
  shows "fst (process_items L w s this items) = this"
proof -
  obtain t out where r: "process_items L w s this items = (t, out)"
    by (cases "process_items L w s this items")
  from process_items_summary [OF r] obtain ps where "summary L w s this items t ps" ..
  with assms have "t = this" by (rule summary_no_db [rotated -1])
  with r show ?thesis by simp
qed

lemma process_item_flag:
  "process_item L w s (this\<lparr>stopPolling := b\<rparr>) it =
     (case process_item L w s this it of (t, out) \<Rightarrow> (t\<lparr>stopPolling := b\<rparr>, out))"
  by (simp add: process_item_def deliver_def split: option.splits sum.splits)

lemma process_items_flag:
  "process_items L w s (this\<lparr>stopPolling := b\<rparr>) items =
     (case process_items L w s this items of (t, out) \<Rightarrow> (t\<lparr>stopPolling := b\<rparr>, out))"
proof (induction items arbitrary: this)
  case Nil
  show ?case by simp
next
  case (Cons it items)
  obtain t1 o1 where step: "process_item L w s this it = (t1, o1)"
    by (cases "process_item L w s this it")
  show ?case
    by (cases o1) (simp_all add: process_item_flag step Cons.IH)
qed

lemma process_items_append:
  "process_items L w s this (xs @ ys) =
     (case process_items L w s this xs of
        (t, Done) \<Rightarrow> process_items L w s t ys
      | (t, Threw e) \<Rightarrow> (t, Threw e)
      | (t, Hung) \<Rightarrow> (t, Hung))"
proof (induction xs arbitrary: this)
  case Nil
  show ?case by simp
next
  case (Cons it xs)
  obtain t1 o1 where step: "process_item L w s this it = (t1, o1)"
    by (cases "process_item L w s this it")
  show ?case
    by (cases o1) (simp_all add: step Cons.IH)
qed

text \<open>A call of \<open>stop()\<close> inside a tick changes the flag and nothing else.\<close>

lemma tick_stop_in_tick:
  assumes "tick L u s w None this = (t, out)"
  shows "tick L u s w (Some k) this = (t, out) \<and> out \<noteq> Done
         \<or> tick L u s w (Some k) this = (stop t, out)"
proof (cases "list_l L w u (the_fetchOptions this)")
  case (Inl e)
  with assms show ?thesis by (auto simp: tick_def)
next
  case (Inr items)
  with assms have all: "process_items L w s this items = (t, out)" by (simp add: tick_def)
  obtain t1 o1 where first: "process_items L w s this (take k items) = (t1, o1)"
    by (cases "process_items L w s this (take k items)")
  have split: "(case process_items L w s this (take k items) of
                  (t', Done) \<Rightarrow> process_items L w s t' (drop k items)
                | (t', Threw e) \<Rightarrow> (t', Threw e)
                | (t', Hung) \<Rightarrow> (t', Hung)) = (t, out)"
    using all process_items_append [of L w s this "take k items" "drop k items"] by simp
  show ?thesis
  proof (cases o1)
    case Done
    with split first have "process_items L w s t1 (drop k items) = (t, out)"
      by simp
    then have "process_items L w s (stop t1) (drop k items) = (stop t, out)"
      by (simp add: stop_def process_items_flag)
    with Inr first Done show ?thesis by (simp add: tick_def)
  next
    case (Threw e)
    with split first have "t = t1" "out = Threw e" by simp_all
    with Inr first Threw show ?thesis by (simp add: tick_def)
  next
    case Hung
    with split first have "t = t1" "out = Hung" by simp_all
    with Inr first Hung show ?thesis by (simp add: tick_def)
  qed
qed

lemma tick_Done_stopped:
  assumes "tick L u s w None this = (t, Done)"
  shows "tick L u s w (Some k) this = (stop t, Done)"
  using tick_stop_in_tick [OF assms, of k] by simp

lemma tick_any_stop:
  "\<exists>t0. tick L u s w None this = (t0, snd (tick L u s w k this)) \<and>
        (fst (tick L u s w k this) = t0 \<or> fst (tick L u s w k this) = stop t0)"
proof (cases k)
  case None
  then show ?thesis by (intro exI [of _ "fst (tick L u s w None this)"]) simp
next
  case (Some j)
  obtain t0 out where r: "tick L u s w None this = (t0, out)"
    by (cases "tick L u s w None this")
  from tick_stop_in_tick [OF r, of j] Some r show ?thesis by auto
qed

text \<open>What a tick does to the watcher.\<close>

lemma tick_None_summary:
  assumes "tick L u s w None this = (t, out)"
  shows "\<exists>ps items.
           (case list_l L w u (the_fetchOptions this) of
              Inl e \<Rightarrow> items = [] | Inr listed \<Rightarrow> items = listed) \<and>
           summary L w s this items t ps"
proof (cases "list_l L w u (the_fetchOptions this)")
  case (Inl e)
  with assms have "t = this" by (simp add: tick_def)
  then have "summary L w s this [] t []" by (simp add: summary_Nil)
  with Inl show ?thesis by auto
next
  case (Inr listed)
  with assms have "process_items L w s this listed = (t, out)" by (simp add: tick_def)
  from process_items_summary [OF this] obtain ps where "summary L w s this listed t ps" ..
  with Inr show ?thesis by auto
qed

lemma tick_summary:
  assumes "tick L u s w k this = (t, out)"
  shows "\<exists>ps items t0.
           (case list_l L w u (the_fetchOptions this) of
              Inl e \<Rightarrow> items = [] | Inr listed \<Rightarrow> items = listed) \<and>
           summary L w s this items t0 ps \<and> (t = t0 \<or> t = stop t0)"
proof -
  from tick_any_stop [of L u s w this k] assms obtain t0 where
    t0: "tick L u s w None this = (t0, out)" and tt: "t = t0 \<or> t = stop t0"
    by auto
  from tick_None_summary [OF t0] tt show ?thesis by blast
qed

lemma has_fold_markSeen:
  "has (fold (\<lambda>p d. markSeen d (fst p)) ps d) k \<longleftrightarrow> k \<in> fst ` set ps \<or> has d k"
  by (induction ps arbitrary: d) (auto simp: has_markSeen)

lemma summary_db:
  assumes "summary L w s this items t ps" and "db this = Some d"
  shows "\<exists>d'. db t = Some d' \<and> (\<forall>k. has d' k \<longleftrightarrow> k \<in> fst ` set (keyed s ps) \<or> has d k)"
  using assms by (simp add: summary_def has_fold_markSeen)

lemma summary_trace:
  assumes "summary L w s this items t ps"
  shows "trace t = trace this @ pair_effects (keyed s ps)"
  using assms by (simp add: summary_def)

lemma stop_fields [simp]:
  "trace (stop t) = trace t" "db (stop t) = db t" "fetch (stop t) = fetch t"
  "stopPolling (stop t)" "freq (stop t) = freq t" "webId (stop t) = webId t"
  by (simp_all add: stop_def)

lemma tick_fetch:
  assumes "tick L u s w k this = (t, out)"
  shows "fetch t = fetch this"
  using tick_summary [OF assms] by (auto dest: summary_fields(1))

lemma tick_None_flag:
  assumes "tick L u s w None this = (t, out)"
  shows "stopPolling t = stopPolling this"
  using tick_None_summary [OF assms] by (auto dest: summary_fields(2))

lemma tick_no_db:
  assumes "tick L u s w k this = (t, out)" and "db this = None"
  shows "db t = None \<and> trace t = trace this"
  using tick_summary [OF assms(1)] assms(2) by (auto dest: summary_no_db)

lemma tick_grows:
  assumes "tick L u s w k this = (t, out)" and "db this = Some d"
  shows "\<exists>ps d'. trace t = trace this @ pair_effects ps \<and> distinct (map fst ps) \<and>
           (\<forall>k\<in>fst ` set ps. \<not> has d k) \<and>
           db t = Some d' \<and> (\<forall>k. has d' k \<longleftrightarrow> k \<in> fst ` set ps \<or> has d k)"
proof -
  from tick_summary [OF assms(1)] obtain ps items t0 where
    sm: "summary L w s this items t0 ps" and tt: "t = t0 \<or> t = stop t0"
    by blast
  from summary_db [OF sm assms(2)] obtain d' where
    d': "db t0 = Some d'" "\<forall>k. has d' k \<longleftrightarrow> k \<in> fst ` set (keyed s ps) \<or> has d k"
    by blast
  have "trace t = trace this @ pair_effects (keyed s ps)"
    using summary_trace [OF sm] tt by auto
  moreover have "distinct (map fst (keyed s ps))"
    using sm by (simp add: summary_def)
  moreover have "\<forall>k\<in>fst ` set (keyed s ps). \<not> has d k"
    using sm assms(2) by (simp add: summary_def)
  moreover have "db t = Some d'" using d'(1) tt by auto
  ultimately show ?thesis using d'(2) by blast
qed

subsection \<open>The schedule\<close>

lemma poll_delay:
  "poll fn delay sh ind rs s = poll fn delay' sh ind rs s"
  by (induction rs arbitrary: s) (simp_all add: Let_def split: prod.splits outcome.splits)

lemma poll_invariant:
  assumes step: "\<And>r s s' out. I s \<Longrightarrow> fn r s = (s', out) \<Longrightarrow> I s'"
    and delay: "\<And>r s. I s \<Longrightarrow> I (ind r s)"
    and "I s" and "poll fn d sh ind rs s = (s', sch)"
  shows "I s'"
  using assms(3,4)
proof (induction rs arbitrary: s)
  case Nil
  then show ?case by simp
next
  case (Cons r rs)
  obtain s1 o1 where f: "fn r s = (s1, o1)" by (cases "fn r s")
  from step [OF Cons.prems(1) f] have s1: "I s1" .
  show ?case
  proof (cases o1)
    case Done
    show ?thesis
    proof (cases "sh s1")
      case True
      with f Done Cons.prems(2) s1 show ?thesis by simp
    next
      case False
      note nostop = this
      show ?thesis
      proof (cases "sh (ind r s1)")
        case True
        with f Done nostop Cons.prems(2) delay [OF s1, of r] show ?thesis by simp
      next
        case False
        with f Done nostop Cons.prems(2)
        have "poll fn d sh ind rs (ind r s1) = (s', sch)" by simp
        from Cons.IH [OF delay [OF s1] this] show ?thesis .
      qed
    qed
  next
    case (Threw e)
    with f Cons.prems(2) s1 show ?thesis by simp
  next
    case Hung
    with f Cons.prems(2) s1 show ?thesis by simp
  qed
qed

lemma start_invariant:
  assumes step: "\<And>w k s s' out. I s \<Longrightarrow>
        tick L u (strategy_or_default sa) w k s = (s', out) \<Longrightarrow> I s'"
    and flag: "\<And>s b. I s \<Longrightarrow> I (s\<lparr>stopPolling := b\<rparr>)"
    and "I this" and "start L u sa rounds this = (t, sch)"
  shows "I t"
proof -
  have "I (this\<lparr>stopPolling := False\<rparr>)" using assms(3) by (rule flag)
  then show ?thesis
  proof (rule poll_invariant [where I = I, rotated 2])
    show "poll (\<lambda>r. tick L u (strategy_or_default sa) (world r) (stop_in_tick r))
            (freq this) stopPolling (\<lambda>r w. if stop_in_delay r then stop w else w) rounds
            (this\<lparr>stopPolling := False\<rparr>) = (t, sch)"
      using assms(4) by (simp add: start_def)
  next
    fix r s s' out
    assume "I s" "tick L u (strategy_or_default sa) (world r) (stop_in_tick r) s = (s', out)"
    then show "I s'" by (rule step)
  next
    fix r s
    assume "I s"
    then show "I (if stop_in_delay r then stop s else s)"
      by (simp add: stop_def flag)
  qed
qed

lemma start_Cons:
  "start L u sa (r # rs) this =
     (case tick L u (strategy_or_default sa) (world r) (stop_in_tick r)
             (this\<lparr>stopPolling := False\<rparr>) of
        (s1, Threw e) \<Rightarrow> (s1, Rejected e)
      | (s1, Hung) \<Rightarrow> (s1, Blocked)
      | (s1, Done) \<Rightarrow>
          if stopPolling s1 then (s1, Stopped)
          else if stop_in_delay r then (stop s1, Stopped)
          else poll (\<lambda>r. tick L u (strategy_or_default sa) (world r) (stop_in_tick r))
                 (freq this) stopPolling (\<lambda>r w. if stop_in_delay r then stop w else w) rs s1)"
  by (simp add: start_def Let_def split: prod.splits outcome.splits)

lemma start_no_db:
  assumes "start L u sa rounds this = (t, sch)" and "db this = None"
  shows "db t = None \<and> trace t = trace this"
proof (rule start_invariant [where I = "\<lambda>s. db s = None \<and> trace s = trace this", OF _ _ _ assms(1)])
  show "db this = None \<and> trace this = trace this" using assms(2) by simp
next
  fix w k s s' out
  assume "db s = None \<and> trace s = trace this"
    and "tick L u (strategy_or_default sa) w k s = (s', out)"
  then show "db s' = None \<and> trace s' = trace this" using tick_no_db by fastforce
next
  fix s :: "'a InboxWatcher" and b
  assume "db s = None \<and> trace s = trace this"
  then show "db (s\<lparr>stopPolling := b\<rparr>) = None \<and> trace (s\<lparr>stopPolling := b\<rparr>) = trace this"
    by simp
qed

lemma start_keeps_seen:
  assumes "start L u sa rounds this = (t, sch)" and "db this = Some d"
  shows "\<exists>d'. db t = Some d' \<and> (\<forall>k. has d k \<longrightarrow> has d' k)"
proof (rule start_invariant
    [where I = "\<lambda>s. \<exists>d'. db s = Some d' \<and> (\<forall>k. has d k \<longrightarrow> has d' k)", OF _ _ _ assms(1)])
  show "\<exists>d'. db this = Some d' \<and> (\<forall>k. has d k \<longrightarrow> has d' k)" using assms(2) by simp
next
  fix w k s s' out
  assume "\<exists>d'. db s = Some d' \<and> (\<forall>k. has d k \<longrightarrow> has d' k)"
    and tk: "tick L u (strategy_or_default sa) w k s = (s', out)"
  then obtain d1 where d1: "db s = Some d1" "\<forall>k. has d k \<longrightarrow> has d1 k" by blast
  from tick_grows [OF tk d1(1)] d1(2)
  show "\<exists>d'. db s' = Some d' \<and> (\<forall>k. has d k \<longrightarrow> has d' k)" by blast
next
  fix s :: "'a InboxWatcher" and b
  assume "\<exists>d'. db s = Some d' \<and> (\<forall>k. has d k \<longrightarrow> has d' k)"
  then show "\<exists>d'. db (s\<lparr>stopPolling := b\<rparr>) = Some d' \<and> (\<forall>k. has d k \<longrightarrow> has d' k)"
    by simp
qed

subsection \<open>A tick whose items all fetch and parse\<close>

lemma deliveries_Nil [simp]: "deliveries d [] = []"
  by (simp add: deliveries_def)

lemma first_unmarked_0: "first_unmarked d (p # ps) 0 \<longleftrightarrow> \<not> has d (fst p)"
  by (simp add: first_unmarked_def)

lemma first_unmarked_Suc:
  "first_unmarked d (p # ps) (Suc j) \<longleftrightarrow>
     first_unmarked (if has d (fst p) then d else markSeen d (fst p)) ps j"
  by (auto simp: first_unmarked_def has_markSeen)

lemma deliveries_Cons:
  "deliveries d (p # ps) =
     (if has d (fst p) then deliveries d ps else p # deliveries (markSeen d (fst p)) ps)"
proof -
  have "[0..<Suc (length ps)] = 0 # [Suc 0..<Suc (length ps)]"
    by (rule upt_conv_Cons) simp
  then have upt: "[0..<length (p # ps)] = 0 # map Suc [0..<length ps]"
    by (simp only: map_Suc_upt length_Cons)
  have tail: "map (\<lambda>i. (p # ps) ! i)
                (filter (first_unmarked d (p # ps)) (map Suc [0..<length ps])) =
              deliveries (if has d (fst p) then d else markSeen d (fst p)) ps"
    by (simp add: deliveries_def filter_map comp_def first_unmarked_Suc)
  show ?thesis
    unfolding deliveries_def [of d "p # ps"] upt
    using tail by (simp add: first_unmarked_0)
qed

lemma mark_all_simps [simp]:
  "mark_all d [] = d"
  "mark_all d (p # ps) = mark_all (markSeen d (fst p)) ps"
  by (simp_all add: mark_all_def)

lemma has_mark_all: "has (mark_all d ps) k \<longleftrightarrow> k \<in> fst ` set ps \<or> has d k"
  by (simp add: mark_all_def has_fold_markSeen)

lemma set_deliveries: "fst ` set (deliveries d all) = {k \<in> fst ` set all. \<not> has d k}"
proof (induction all arbitrary: d)
  case Nil
  show ?case by simp
next
  case (Cons p ps)
  show ?case by (auto simp: deliveries_Cons Cons.IH has_markSeen)
qed

lemma process_items_all_parsed:
  assumes "list_all2 (\<lambda>it n. fetch_and_parse L w f it = Some (Inr n)) items ns"
    and "fetch this = Some f" and "db this = Some d"
  shows "process_items L w s this items =
           (this\<lparr>trace := trace this @ pair_effects (deliveries d (keyed s (zip items ns))),
                 db := Some (mark_all d (deliveries d (keyed s (zip items ns))))\<rparr>, Done)"
  using assms
proof (induction items ns arbitrary: this d rule: list_all2_induct)
  case Nil
  then show ?case by simp
next
  case (Cons it items n ns)
  let ?k = "idToCheck s it n"
  show ?case
  proof (cases "has d ?k")
    case True
    with Cons.prems Cons.hyps(1)
    have "process_item L w s this it = (this, Done)"
      by (simp add: process_item_def deliver_eq)
    with Cons.IH [OF Cons.prems] True show ?thesis
      by (simp add: deliveries_Cons)
  next
    case False
    let ?t = "this\<lparr>trace := trace this @ [Emit n, Put ?k], db := Some (markSeen d ?k)\<rparr>"
    from False Cons.prems Cons.hyps(1)
    have step: "process_item L w s this it = (?t, Done)"
      by (simp add: process_item_def deliver_eq)
    have "fetch ?t = Some f" "db ?t = Some (markSeen d ?k)"
      using Cons.prems by simp_all
    from Cons.IH [OF this] step False show ?thesis
      by (simp add: deliveries_Cons)
  qed
qed

lemma tick_any_stop_fields:
  "trace (fst (tick L u s w k this)) = trace (fst (tick L u s w None this))"
  "db (fst (tick L u s w k this)) = db (fst (tick L u s w None this))"
  "snd (tick L u s w k this) = snd (tick L u s w None this)"
  using tick_any_stop [of L u s w this k] by auto

lemma tick_all_parsed:
  assumes "tick L u s w k this = (t, out)"
    and "list_l L w u (the_fetchOptions this) = Inr items"
    and "list_all2 (\<lambda>it n. fetch_and_parse L w f it = Some (Inr n)) items ns"
    and "fetch this = Some f" and "db this = Some d"
  shows "out = Done \<and>
         trace t = trace this @ pair_effects (deliveries d (keyed s (zip items ns))) \<and>
         db t = Some (mark_all d (deliveries d (keyed s (zip items ns))))"
proof -
  have "tick L u s w None this =
          (this\<lparr>trace := trace this @ pair_effects (deliveries d (keyed s (zip items ns))),
                db := Some (mark_all d (deliveries d (keyed s (zip items ns))))\<rparr>, Done)"
    using process_items_all_parsed [OF assms(3,4,5)] assms(2) by (simp add: tick_def)
  with tick_any_stop_fields [of L u s w k this] assms(1) show ?thesis by simp
qed

section \<open>The concrete values, evaluated\<close>

lemma ex_fetch_and_parse [simp]:
  "fetch_and_parse ex_libs w ex_fetch (res ''urn:b1'') = Some (Inr ex_n1)"
  "fetch_and_parse ex_libs w ex_fetch (res ''urn:b2'') = Some (Inr ex_n2)"
  "fetch_and_parse ex_libs w ex_fetch (res ''urn:b3'') = Some (Inr ex_n3)"
  "fetch_and_parse ex_libs w ex_fetch (res ''urn:b4'') = Some (Inr ex_n4)"
  "fetch_and_parse ex_libs w ex_fetch (res ''urn:b5'') = Some (Inr ex_n5)"
  "fetch_and_parse ex_libs w ex_fetch (res ''urn:bad'') = Some (Inl (Error ''fetch failed''))"
  by (simp_all add: fetch_and_parse_def ex_fetch_def plain_get_def res_def ex_libs_def
      or_else_def parseNotification_def ex_parser_def falsy_def
      ex_n1_def ex_n2_def ex_n3_def ex_n4_def ex_n5_def)

lemma ex_ids [simp]:
  "id_n ex_n1 = Some ''urn:n1''" "id_n ex_n2 = Some ''urn:n1''" "id_n ex_n3 = None"
  "id_n ex_n4 = None" "id_n ex_n5 = Some ''urn:n5''"
  by (simp_all add: ex_n1_def ex_n2_def ex_n3_def ex_n4_def ex_n5_def)

lemma ex_list [simp]: "list_l ex_libs w u fo = Inr w"
  by (simp add: ex_libs_def)

lemma ex_watcher_fields [simp]:
  "fetch ex_watcher = Some ex_fetch" "db ex_watcher = None" "trace ex_watcher = []"
  "fetch caching_watcher = Some ex_fetch" "db caching_watcher = Some Map.empty"
  "trace caching_watcher = []" "\<not> stopPolling caching_watcher" "\<not> stopPolling ex_watcher"
  by (simp_all add: ex_watcher_def caching_watcher_def)

lemma url_res [simp]: "url (res u) = u"
  by (simp add: res_def)

lemma quiet_fields [simp]:
  "world (quiet w) = w" "stop_in_tick (quiet w) = None" "\<not> stop_in_delay (quiet w)"
  by (simp_all add: quiet_def)

text \<open>The definitions a concrete run unfolds.\<close>

lemmas run_defs = tick_def process_item_def deliver_def idToCheck_def store_get_def
  store_put_def falsy_bool_def start_def strategy_or_default_def stop_def

lemma ex_create: "create ex_libs ''urn:base'' ex_options = Inr ex_watcher"
  by (simp add: create_def login_def constructor_def ex_libs_def ex_options_def
      no_options_def falsy_bool_def ex_watcher_def)

lemma ex_constructor:
  "constructor ex_libs \<lparr>s_fetch = ex_fetch, s_webId = Some ''alice''\<rparr>
     \<lparr>cache = Some True, cachePath = None, inboxPath = None\<rparr> = Inr caching_watcher"
  by (simp add: constructor_def ex_libs_def falsy_bool_def ex_watcher_def caching_watcher_def
      or_else_def)

lemma seen_watcher_fields [simp]:
  "fetch seen_watcher = Some ex_fetch"
  "db seen_watcher = Some (Map.empty(Some ''urn:n1'' \<mapsto> True))"
  "trace seen_watcher = []"
  by (simp_all add: seen_watcher_def ex_watcher_def)

section \<open>The claims\<close>

subsection \<open>Without a store\<close>

text \<open>
  C1 says that a watcher without Identity Store emits an event for every item it fetched
  and parsed, so that a resource listed in two consecutive ticks is emitted twice. The
  code emits only under \<open>this.db && ...\<close>: the watcher that \<open>create\<close> returns has no
  store, and in two ticks that both list \<open>urn:b1\<close>, which fetches and parses to
  \<open>ex_n1\<close>, it emits nothing at all and is left as it was.
\<close>

theorem no_cache_no_emission:
  "create ex_libs ''urn:base'' ex_options = Inr ex_watcher \<and>
   db ex_watcher = None \<and> trace ex_watcher = [] \<and>
   fetch_and_parse ex_libs [res ''urn:b1''] ex_fetch (res ''urn:b1'') = Some (Inr ex_n1) \<and>
   start ex_libs ''urn:inbox'' None [quiet [res ''urn:b1''], quiet [res ''urn:b1'']] ex_watcher
     = (ex_watcher, Polling)"
  by (simp add: ex_create run_defs)

text \<open>
  C9. Whenever \<open>create\<close> returns a watcher, the constructor ran with the default options:
  the watcher has no store, it is the session's fields and nothing else of the options
  (the \<open>cachePath\<close> among them), the function that opens a store was not consulted
  (replacing it by any other gives the same watcher), and no tick and no schedule of
  this watcher, with any libraries, inbox, strategy and rounds, emits an event or
  acquires a store.
\<close>

theorem create_opens_no_store:
  assumes "create L baseUrl options = Inr this"
  shows "db this = None \<and>
         (\<exists>session. login L baseUrl options = Inr session \<and>
            this = \<lparr>webId = s_webId session, fetch = Some (s_fetch session), freq = 1000,
                    stopPolling = False, db = None, trace = []\<rparr>) \<and>
         create (L\<lparr>open_store := os\<rparr>) baseUrl options = Inr this \<and>
         trace (fst (tick L' u s w k this)) = [] \<and>
         trace (fst (start L' u sa rounds this)) = [] \<and>
         db (fst (start L' u sa rounds this)) = None"
proof -
  from assms obtain session where
    lg: "login L baseUrl options = Inr session" and
    th: "this = \<lparr>webId = s_webId session, fetch = Some (s_fetch session), freq = 1000,
                    stopPolling = False, db = None, trace = []\<rparr>"
    by (auto simp: create_def constructor_def no_options_def falsy_bool_def split: sum.splits)
  have nodb: "db this = None" and notr: "trace this = []" using th by simp_all
  have "login (L\<lparr>open_store := os\<rparr>) baseUrl options = login L baseUrl options"
    by (simp add: login_def split: sum.splits)
  then have same: "create (L\<lparr>open_store := os\<rparr>) baseUrl options = Inr this"
    using lg th by (simp add: create_def constructor_def no_options_def falsy_bool_def)
  have tk: "trace (fst (tick L' u s w k this)) = []"
    using tick_no_db [OF _ nodb, of L' u s w k] notr
    by (cases "tick L' u s w k this") simp
  have st: "trace (fst (start L' u sa rounds this)) = [] \<and>
            db (fst (start L' u sa rounds this)) = None"
    using start_no_db [OF _ nodb, of L' u sa rounds] notr
    by (cases "start L' u sa rounds this") simp
  from nodb lg th same tk st show ?thesis by blast
qed

theorem create_opens_no_store_witness:
  "create ex_libs ''urn:base'' ex_options = Inr ex_watcher \<and>
   db ex_watcher = None \<and>
   create (ex_libs\<lparr>open_store := (\<lambda>path. Inl (Error ''no such directory''))\<rparr>)
     ''urn:base'' ex_options = Inr ex_watcher \<and>
   create ex_libs ''urn:base'' (ex_options\<lparr>o_cachePath := None\<rparr>) = Inr ex_watcher \<and>
   trace (fst (tick ex_libs ''urn:inbox'' ''activity'' [res ''urn:b1''] None ex_watcher)) = [] \<and>
   trace (fst (start ex_libs ''urn:inbox'' None
                 [quiet [res ''urn:b1''], quiet [res ''urn:b1'', res ''urn:b3'']] ex_watcher)) = []"
  using create_opens_no_store [OF ex_create,
      of "\<lambda>path. Inl (Error ''no such directory'')" ex_libs "''urn:inbox''" "''activity''"
         "[res ''urn:b1'']" None None
         "[quiet [res ''urn:b1''], quiet [res ''urn:b1'', res ''urn:b3'']]"]
  by (simp add: ex_create)
     (simp add: create_def login_def constructor_def ex_libs_def ex_options_def
        no_options_def falsy_bool_def ex_watcher_def)

subsection \<open>Order within a tick\<close>

text \<open>
  C7. The effects of a tick are, for a subsequence \<open>ps\<close> of the listing in listing order,
  each of whose items was fetched and parsed to its notification, the event of the item
  followed at once by the \<open>put\<close> of its key, and nothing else, and the store after the
  tick is the store before it with the keys of \<open>ps\<close> marked; a listing that fails leaves
  no effect. When the watcher has a fetch function and a store \<open>d\<close>, and every listed item
  fetches and parses, the tick completes and \<open>ps\<close> is exactly the deliveries \<open>d\<close> calls
  for: one for each listed item, in listing order, whose key is not marked in \<open>d\<close> and
  is not the key of an earlier item of the listing; after the tick every key of the
  listing is marked. The loop \<open>process_items\<close> takes the items one at a time.
\<close>

theorem tick_emits_in_listing_order:
  assumes "tick L u s w k this = (t, out)"
  shows "(\<exists>ps. trace t = trace this @ pair_effects (keyed s ps) \<and>
            db t = map_option (\<lambda>d. mark_all d (keyed s ps)) (db this) \<and>
            (\<forall>(it, n)\<in>set ps. \<exists>f. fetch this = Some f \<and>
                fetch_and_parse L w f it = Some (Inr n)) \<and>
            (\<forall>items. list_l L w u (the_fetchOptions this) = Inr items \<longrightarrow>
                subseq (map fst ps) items) \<and>
            (\<forall>e. list_l L w u (the_fetchOptions this) = Inl e \<longrightarrow> ps = [])) \<and>
         (\<forall>f d items ns.
            fetch this = Some f \<longrightarrow> db this = Some d \<longrightarrow>
            list_l L w u (the_fetchOptions this) = Inr items \<longrightarrow>
            list_all2 (\<lambda>it n. fetch_and_parse L w f it = Some (Inr n)) items ns \<longrightarrow>
              out = Done \<and>
              trace t = trace this @ pair_effects (deliveries d (keyed s (zip items ns))) \<and>
              db t = Some (mark_all d (deliveries d (keyed s (zip items ns)))) \<and>
              (\<forall>k'. has (mark_all d (deliveries d (keyed s (zip items ns)))) k' \<longleftrightarrow>
                     has d k' \<or> k' \<in> fst ` set (keyed s (zip items ns))))"
proof (intro conjI allI impI)
  from tick_summary [OF assms] obtain ps items t0 where
    ls: "case list_l L w u (the_fetchOptions this) of
           Inl e \<Rightarrow> items = [] | Inr listed \<Rightarrow> items = listed" and
    sm: "summary L w s this items t0 ps" and tt: "t = t0 \<or> t = stop t0"
    by blast
  have "trace t = trace this @ pair_effects (keyed s ps)"
    using summary_trace [OF sm] tt by auto
  moreover have "db t0 = map_option (\<lambda>d. mark_all d (keyed s ps)) (db this)"
    using sm by (cases "db this") (simp_all add: summary_def mark_all_def)
  then have "db t = map_option (\<lambda>d. mark_all d (keyed s ps)) (db this)"
    using tt by auto
  moreover have "\<forall>(it, n)\<in>set ps. \<exists>f. fetch this = Some f \<and>
               fetch_and_parse L w f it = Some (Inr n)"
    using sm by (simp add: summary_def)
  moreover have "\<forall>items. list_l L w u (the_fetchOptions this) = Inr items \<longrightarrow>
               subseq (map fst ps) items"
    using sm ls by (auto simp: summary_def)
  moreover have "\<forall>e. list_l L w u (the_fetchOptions this) = Inl e \<longrightarrow> ps = []"
    using sm ls by (auto simp: summary_def dest: list_emb_Nil2)
  ultimately show "\<exists>ps. trace t = trace this @ pair_effects (keyed s ps) \<and>
            db t = map_option (\<lambda>d. mark_all d (keyed s ps)) (db this) \<and>
            (\<forall>(it, n)\<in>set ps. \<exists>f. fetch this = Some f \<and>
                fetch_and_parse L w f it = Some (Inr n)) \<and>
            (\<forall>items. list_l L w u (the_fetchOptions this) = Inr items \<longrightarrow>
                subseq (map fst ps) items) \<and>
            (\<forall>e. list_l L w u (the_fetchOptions this) = Inl e \<longrightarrow> ps = [])"
    by blast
next
  fix f d items ns k'
  assume a: "fetch this = Some f" "db this = Some d"
    "list_l L w u (the_fetchOptions this) = Inr items"
    "list_all2 (\<lambda>it n. fetch_and_parse L w f it = Some (Inr n)) items ns"
  note all = tick_all_parsed [OF assms a(3,4,1,2)]
  from all show "out = Done" by simp
  from all show "trace t = trace this @ pair_effects (deliveries d (keyed s (zip items ns)))"
    by simp
  from all show "db t = Some (mark_all d (deliveries d (keyed s (zip items ns))))" by simp
  show "has (mark_all d (deliveries d (keyed s (zip items ns)))) k' \<longleftrightarrow>
          has d k' \<or> k' \<in> fst ` set (keyed s (zip items ns))"
    unfolding has_mark_all set_deliveries by blast
qed

theorem tick_emits_in_listing_order_witness:
  "trace (fst (tick ex_libs ''urn:inbox'' ''activity''
                 [res ''urn:b1'', res ''urn:b2'', res ''urn:b3''] None caching_watcher))
     = [Emit ex_n1, Put (Some ''urn:n1''), Emit ex_n3, Put None] \<and>
   snd (tick ex_libs ''urn:inbox'' ''activity''
          [res ''urn:b1'', res ''urn:b2'', res ''urn:b3''] None caching_watcher) = Done \<and>
   db (fst (tick ex_libs ''urn:inbox'' ''activity''
              [res ''urn:b1'', res ''urn:b2'', res ''urn:b3''] None caching_watcher))
     = Some (markSeen (markSeen Map.empty (Some ''urn:n1'')) None) \<and>
   has (markSeen (markSeen Map.empty (Some ''urn:n1'')) None) (Some ''urn:n1'') \<and>
   has (markSeen (markSeen Map.empty (Some ''urn:n1'')) None) None \<and>
   \<not> has (markSeen (markSeen Map.empty (Some ''urn:n1'')) None) (Some ''urn:b1'')"
proof -
  let ?items = "[res ''urn:b1'', res ''urn:b2'', res ''urn:b3'']"
  let ?run = "tick ex_libs ''urn:inbox'' ''activity'' ?items None caching_watcher"
  have run: "?run = (fst ?run, snd ?run)" by simp
  have p1: "fetch caching_watcher = Some ex_fetch" and p2: "db caching_watcher = Some Map.empty"
    and p3: "list_l ex_libs ?items ''urn:inbox'' (the_fetchOptions caching_watcher) = Inr ?items"
    and p4: "list_all2 (\<lambda>it n. fetch_and_parse ex_libs ?items ex_fetch it = Some (Inr n))
               ?items [ex_n1, ex_n2, ex_n3]"
    by simp_all
  have empty: "\<not> has Map.empty k" for k
    by (simp add: has_def store_get_def falsy_bool_def)
  have dl: "deliveries Map.empty (keyed ''activity'' (zip ?items [ex_n1, ex_n2, ex_n3]))
              = [(Some ''urn:n1'', ex_n1), (None, ex_n3)]"
    by (simp add: deliveries_Cons idToCheck_def has_markSeen empty)
  from tick_emits_in_listing_order [OF run, THEN conjunct2, rule_format, OF p1 p2 p3 p4] dl
  show ?thesis by (simp add: has_markSeen empty)
qed

subsection \<open>Deduplication\<close>

text \<open>
  C6. With a store \<open>d\<close> present: marking a key twice leaves the store as marking it once
  does, and the key is then found; over two consecutive ticks the deliveries are pairs
  of an event and the \<open>put\<close> of its key whose keys are pairwise distinct and were not
  marked in \<open>d\<close>, so no key is emitted twice, whatever the two ticks list; and every key
  marked in \<open>d\<close> is still marked after the two ticks, and after any schedule started on
  the watcher.
\<close>

theorem dedup_across_ticks:
  assumes "db this = Some d"
    and "tick L u1 s1 w1 k1 this = (t1, o1)"
    and "tick L u2 s2 w2 k2 t1 = (t2, o2)"
  shows "has (markSeen (markSeen d k) k) k \<and> markSeen (markSeen d k) k = markSeen d k \<and>
         (\<exists>ps1 ps2. trace t1 = trace this @ pair_effects ps1 \<and>
                     trace t2 = trace t1 @ pair_effects ps2 \<and>
                     distinct (map fst (ps1 @ ps2)) \<and>
                     (\<forall>k'\<in>fst ` set (ps1 @ ps2). \<not> has d k')) \<and>
         (\<exists>d2. db t2 = Some d2 \<and> (\<forall>k'. has d k' \<longrightarrow> has d2 k')) \<and>
         (start L u sa rounds this = (t3, sch) \<longrightarrow>
            (\<exists>d3. db t3 = Some d3 \<and> (\<forall>k'. has d k' \<longrightarrow> has d3 k')))"
proof -
  from tick_grows [OF assms(2,1)] obtain ps1 d1 where
    tr1: "trace t1 = trace this @ pair_effects ps1" and di1: "distinct (map fst ps1)" and
    fr1: "\<forall>k\<in>fst ` set ps1. \<not> has d k" and
    db1: "db t1 = Some d1" and
    in1: "\<forall>k. has d1 k \<longleftrightarrow> k \<in> fst ` set ps1 \<or> has d k"
    by blast
  from tick_grows [OF assms(3) db1] obtain ps2 d2 where
    tr2: "trace t2 = trace t1 @ pair_effects ps2" and di2: "distinct (map fst ps2)" and
    fr2: "\<forall>k\<in>fst ` set ps2. \<not> has d1 k" and
    db2: "db t2 = Some d2" and
    in2: "\<forall>k. has d2 k \<longleftrightarrow> k \<in> fst ` set ps2 \<or> has d1 k"
    by blast
  have "fst ` set ps1 \<inter> fst ` set ps2 = {}"
    using fr2 in1 by blast
  then have "distinct (map fst (ps1 @ ps2))"
    using di1 di2 by simp
  moreover have "\<forall>k'\<in>fst ` set (ps1 @ ps2). \<not> has d k'"
    using fr1 fr2 in1 by auto
  ultimately have pairs: "\<exists>ps1 ps2. trace t1 = trace this @ pair_effects ps1 \<and>
                     trace t2 = trace t1 @ pair_effects ps2 \<and>
                     distinct (map fst (ps1 @ ps2)) \<and>
                     (\<forall>k'\<in>fst ` set (ps1 @ ps2). \<not> has d k')"
    using tr1 tr2 by blast
  have kept: "\<exists>d2. db t2 = Some d2 \<and> (\<forall>k'. has d k' \<longrightarrow> has d2 k')"
    using db2 in1 in2 by auto
  have twice: "has (markSeen (markSeen d k) k) k"
    by (simp add: has_markSeen)
  have again: "markSeen (markSeen d k) k = markSeen d k"
    by (simp add: markSeen_def store_put_def)
  have sched: "start L u sa rounds this = (t3, sch) \<longrightarrow>
            (\<exists>d3. db t3 = Some d3 \<and> (\<forall>k'. has d k' \<longrightarrow> has d3 k'))"
    using start_keeps_seen [OF _ assms(1)] by blast
  from twice again pairs kept sched show ?thesis by blast
qed

theorem dedup_across_ticks_witness:
  "db seen_watcher = Some (Map.empty(Some ''urn:n1'' \<mapsto> True)) \<and>
   has (Map.empty(Some ''urn:n1'' \<mapsto> True)) (Some ''urn:n1'') \<and>
   trace (fst (tick ex_libs ''urn:inbox'' ''activity'' [res ''urn:b1'', res ''urn:b3''] None
                 seen_watcher))
     = [Emit ex_n3, Put None] \<and>
   trace (fst (tick ex_libs ''urn:inbox'' ''activity'' [res ''urn:b1'', res ''urn:b3''] None
            (fst (tick ex_libs ''urn:inbox'' ''activity'' [res ''urn:b1'', res ''urn:b3''] None
                    seen_watcher))))
     = [Emit ex_n3, Put None] \<and>
   (\<exists>d2. db (fst (tick ex_libs ''urn:inbox'' ''activity'' [res ''urn:b1'', res ''urn:b3''] None
            (fst (tick ex_libs ''urn:inbox'' ''activity'' [res ''urn:b1'', res ''urn:b3''] None
                    seen_watcher)))) = Some d2 \<and>
         has d2 (Some ''urn:n1'')) \<and>
   (\<exists>d3. db (fst (start ex_libs ''urn:inbox'' None
                     [quiet [res ''urn:b1'', res ''urn:b3''], quiet [res ''urn:b1'']]
                     seen_watcher)) = Some d3 \<and>
         has d3 (Some ''urn:n1'')) \<and>
   has (markSeen (markSeen (Map.empty(Some ''urn:n1'' \<mapsto> True)) None) None) None"
proof -
  let ?d = "Map.empty(Some ''urn:n1'' \<mapsto> True)"
  let ?t1 = "fst (tick ex_libs ''urn:inbox'' ''activity'' [res ''urn:b1'', res ''urn:b3''] None
                    seen_watcher)"
  let ?t2 = "fst (tick ex_libs ''urn:inbox'' ''activity'' [res ''urn:b1'', res ''urn:b3''] None
                    ?t1)"
  let ?run = "start ex_libs ''urn:inbox'' None
                [quiet [res ''urn:b1'', res ''urn:b3''], quiet [res ''urn:b1'']] seen_watcher"
  have d: "db seen_watcher = Some ?d" by simp
  have seen: "has ?d (Some ''urn:n1'')" by (simp add: has_def store_get_def falsy_bool_def)
  have one: "tick ex_libs ''urn:inbox'' ''activity'' [res ''urn:b1'', res ''urn:b3''] None
               seen_watcher
             = (?t1, snd (tick ex_libs ''urn:inbox'' ''activity''
                            [res ''urn:b1'', res ''urn:b3''] None seen_watcher))"
    by simp
  have two: "tick ex_libs ''urn:inbox'' ''activity'' [res ''urn:b1'', res ''urn:b3''] None ?t1
             = (?t2, snd (tick ex_libs ''urn:inbox'' ''activity''
                            [res ''urn:b1'', res ''urn:b3''] None ?t1))"
    by simp
  have run: "?run = (fst ?run, snd ?run)" by simp
  have tr1: "trace ?t1 = [Emit ex_n3, Put None]" by (simp add: run_defs)
  have tr2: "trace ?t2 = [Emit ex_n3, Put None]" by (simp add: run_defs)
  note th = dedup_across_ticks
      [where k = None and u = "''urn:inbox''" and sa = None
         and rounds = "[quiet [res ''urn:b1'', res ''urn:b3''], quiet [res ''urn:b1'']]"
         and ?t3.0 = "fst ?run" and sch = "snd ?run", OF d one two]
  from th have twice: "has (markSeen (markSeen ?d None) None) None" by blast
  from th seen have kept: "\<exists>d2. db ?t2 = Some d2 \<and> has d2 (Some ''urn:n1'')" by blast
  from th run seen have sched: "\<exists>d3. db (fst ?run) = Some d3 \<and> has d3 (Some ''urn:n1'')"
    by blast
  from d seen tr1 tr2 kept sched twice show ?thesis by blast
qed

text \<open>
  C10. Under the strategy \<open>activity\<close>, with a store present, a notification without
  derived \<open>id\<close> has the key \<open>undefined\<close>, whatever its resource. The first one, the key
  not yet marked, is emitted and the key marked; after any tick that follows, a
  notification without \<open>id\<close> from any resource, in any world, is skipped: the watcher is
  left exactly as it was, with no event and no error.
\<close>

theorem undefined_id_shares_one_key:
  assumes "db this = Some d" and "fetch this = Some f"
    and "fetch_and_parse L w f it = Some (Inr n)" and "id_n n = None"
    and "\<not> has d None"
    and "tick L u' s' w' k (fst (process_item L w ''activity'' this it)) = (t2, o2)"
    and "fetch_and_parse L w'' f it' = Some (Inr n')" and "id_n n' = None"
  shows "idToCheck ''activity'' it n = None \<and> idToCheck ''activity'' it' n' = None \<and>
         process_item L w ''activity'' this it =
           (this\<lparr>trace := trace this @ [Emit n, Put None], db := Some (markSeen d None)\<rparr>, Done) \<and>
         process_item L w'' ''activity'' t2 it' = (t2, Done)"
proof -
  have k1: "idToCheck ''activity'' it n = None" and k2: "idToCheck ''activity'' it' n' = None"
    using assms(4,8) by (simp_all add: idToCheck_def)
  have first: "process_item L w ''activity'' this it =
           (this\<lparr>trace := trace this @ [Emit n, Put None], db := Some (markSeen d None)\<rparr>, Done)"
    using assms(1,2,3,5) k1 by (simp add: process_item_def deliver_eq)
  let ?t1 = "this\<lparr>trace := trace this @ [Emit n, Put None], db := Some (markSeen d None)\<rparr>"
  from assms(6) first have tk: "tick L u' s' w' k ?t1 = (t2, o2)" by simp
  have "db ?t1 = Some (markSeen d None)" by simp
  from tick_grows [OF tk this] obtain d2 where
    d2: "db t2 = Some d2" "has d2 None" by (auto simp: has_markSeen)
  have "fetch t2 = Some f" using tick_fetch [OF tk] assms(2) by simp
  then have "process_item L w'' ''activity'' t2 it' = (t2, Done)"
    using assms(7) k2 d2 by (simp add: process_item_def deliver_eq)
  with k1 k2 first show ?thesis by blast
qed

theorem undefined_id_shares_one_key_witness:
  "process_item ex_libs [] ''activity'' caching_watcher (res ''urn:b3'')
     = (caching_watcher\<lparr>trace := trace caching_watcher @ [Emit ex_n3, Put None],
                         db := Some (markSeen Map.empty None)\<rparr>, Done) \<and>
   process_item ex_libs [] ''activity''
     (fst (tick ex_libs ''urn:inbox'' ''activity'' [res ''urn:b1''] None
        (fst (process_item ex_libs [] ''activity'' caching_watcher (res ''urn:b3'')))))
     (res ''urn:b4'')
     = (fst (tick ex_libs ''urn:inbox'' ''activity'' [res ''urn:b1''] None
          (fst (process_item ex_libs [] ''activity'' caching_watcher (res ''urn:b3'')))), Done) \<and>
   trace (fst (tick ex_libs ''urn:inbox'' ''activity'' [res ''urn:b3'', res ''urn:b4''] None
                 caching_watcher))
     = [Emit ex_n3, Put None]"
proof -
  have nh: "\<not> has Map.empty None" by (simp add: has_def store_get_def falsy_bool_def)
  have tk: "tick ex_libs ''urn:inbox'' ''activity'' [res ''urn:b1''] None
              (fst (process_item ex_libs [] ''activity'' caching_watcher (res ''urn:b3'')))
            = (fst (tick ex_libs ''urn:inbox'' ''activity'' [res ''urn:b1''] None
                 (fst (process_item ex_libs [] ''activity'' caching_watcher (res ''urn:b3'')))),
               snd (tick ex_libs ''urn:inbox'' ''activity'' [res ''urn:b1''] None
                 (fst (process_item ex_libs [] ''activity'' caching_watcher (res ''urn:b3'')))))"
    by simp
  have both: "trace (fst (tick ex_libs ''urn:inbox'' ''activity''
                 [res ''urn:b3'', res ''urn:b4''] None caching_watcher))
     = [Emit ex_n3, Put None]"
    by (simp add: run_defs)
  have p1: "db caching_watcher = Some Map.empty" and p2: "fetch caching_watcher = Some ex_fetch"
    and p3: "fetch_and_parse ex_libs [] ex_fetch (res ''urn:b3'') = Some (Inr ex_n3)"
    and p4: "id_n ex_n3 = None"
    and p7: "fetch_and_parse ex_libs [] ex_fetch (res ''urn:b4'') = Some (Inr ex_n4)"
    and p8: "id_n ex_n4 = None"
    by simp_all
  from undefined_id_shares_one_key [OF p1 p2 p3 p4 nh tk p7 p8] both
  show ?thesis by blast
qed

subsection \<open>The strategy\<close>

text \<open>
  C2. The key is chosen by the strategy given to \<open>start\<close>: under \<open>activity\<close>, which is the
  default, it is the notification's derived \<open>id\<close>; under \<open>notification_id\<close> it is the
  resource's url, and the code knows no other token that selects the url. The
  consequence is about deduplication, so it is stated of a watcher with a store, in
  which the keys in question are not yet marked: in a tick that lists two resources
  with different urls whose notifications have the same derived \<open>id\<close>, under
  \<open>notification_id\<close> both are emitted, each followed by the \<open>put\<close> of its url; under
  \<open>activity\<close> only the first is, followed by the \<open>put\<close> of the \<open>id\<close>. The same holds of
  the first round of a schedule started with the strategy, or with none.
\<close>

theorem strategy_chooses_key:
  assumes "db this = Some d" and "fetch this = Some f"
    and "list_l L w u (the_fetchOptions this) = Inr [it1, it2]"
    and "fetch_and_parse L w f it1 = Some (Inr n1)"
    and "fetch_and_parse L w f it2 = Some (Inr n2)"
    and "url it1 \<noteq> url it2" and "id_n n1 = id_n n2"
    and "\<not> has d (Some (url it1))" and "\<not> has d (Some (url it2))" and "\<not> has d (id_n n1)"
  shows "idToCheck ''activity'' it n = id_n n \<and>
         idToCheck ''notification_id'' it n = Some (url it) \<and>
         idToCheck s it n = (if s = ''notification_id'' then Some (url it) else id_n n) \<and>
         strategy_or_default None = ''activity'' \<and> strategy_or_default (Some s) = s \<and>
         trace (fst (tick L u ''notification_id'' w None this)) =
           trace this @ [Emit n1, Put (Some (url it1)), Emit n2, Put (Some (url it2))] \<and>
         trace (fst (tick L u ''activity'' w None this)) = trace this @ [Emit n1, Put (id_n n1)] \<and>
         trace (fst (start L u (Some ''notification_id'') [quiet w] this)) =
           trace this @ [Emit n1, Put (Some (url it1)), Emit n2, Put (Some (url it2))] \<and>
         trace (fst (start L u (Some ''activity'') [quiet w] this)) =
           trace this @ [Emit n1, Put (id_n n1)] \<and>
         trace (fst (start L u None [quiet w] this)) = trace this @ [Emit n1, Put (id_n n1)]"
proof -
  have keys: "idToCheck ''activity'' it n = id_n n"
    "idToCheck ''notification_id'' it n = Some (url it)"
    "idToCheck s it n = (if s = ''notification_id'' then Some (url it) else id_n n)"
    by (simp_all add: idToCheck_def)
  have byurl: "trace (fst (tick L u ''notification_id'' w None this)) =
           trace this @ [Emit n1, Put (Some (url it1)), Emit n2, Put (Some (url it2))]"
    using assms by (simp add: tick_def process_item_def deliver_eq idToCheck_def has_markSeen)
  have byid: "trace (fst (tick L u ''activity'' w None this)) =
           trace this @ [Emit n1, Put (id_n n1)]"
    using assms by (simp add: tick_def process_item_def deliver_eq idToCheck_def has_markSeen)
  have dflt: "strategy_or_default None = ''activity''" "strategy_or_default (Some s) = s"
    by (simp_all add: strategy_or_default_def)
  have surl: "trace (fst (start L u (Some ''notification_id'') [quiet w] this)) =
           trace this @ [Emit n1, Put (Some (url it1)), Emit n2, Put (Some (url it2))]"
    using assms
    by (simp add: start_def strategy_or_default_def quiet_def the_fetchOptions_def tick_def
        process_item_def deliver_eq idToCheck_def has_markSeen)
  have sid: "trace (fst (start L u (Some ''activity'') [quiet w] this)) =
           trace this @ [Emit n1, Put (id_n n1)]"
    using assms
    by (simp add: start_def strategy_or_default_def quiet_def the_fetchOptions_def tick_def
        process_item_def deliver_eq idToCheck_def has_markSeen)
  have snone: "trace (fst (start L u None [quiet w] this)) =
           trace this @ [Emit n1, Put (id_n n1)]"
    using assms
    by (simp add: start_def strategy_or_default_def quiet_def the_fetchOptions_def tick_def
        process_item_def deliver_eq idToCheck_def has_markSeen)
  from keys dflt byurl byid surl sid snone show ?thesis by simp
qed

theorem strategy_chooses_key_witness:
  "trace (fst (tick ex_libs ''urn:inbox'' ''notification_id'' [res ''urn:b1'', res ''urn:b2'']
                 None caching_watcher))
     = trace caching_watcher @
       [Emit ex_n1, Put (Some (url (res ''urn:b1''))), Emit ex_n2, Put (Some (url (res ''urn:b2'')))] \<and>
   trace (fst (tick ex_libs ''urn:inbox'' ''activity'' [res ''urn:b1'', res ''urn:b2''] None
                 caching_watcher))
     = trace caching_watcher @ [Emit ex_n1, Put (id_n ex_n1)] \<and>
   idToCheck ''activity'' (res ''urn:b1'') ex_n1 = Some ''urn:n1'' \<and>
   idToCheck ''notification_id'' (res ''urn:b1'') ex_n1 = Some ''urn:b1'' \<and>
   trace (fst (start ex_libs ''urn:inbox'' (Some ''notification_id'')
                 [quiet [res ''urn:b1'', res ''urn:b2'']] caching_watcher))
     = [Emit ex_n1, Put (Some ''urn:b1''), Emit ex_n2, Put (Some ''urn:b2'')] \<and>
   trace (fst (start ex_libs ''urn:inbox'' None
                 [quiet [res ''urn:b1'', res ''urn:b2'']] caching_watcher))
     = [Emit ex_n1, Put (Some ''urn:n1'')]"
proof -
  have p1: "db caching_watcher = Some Map.empty" and p2: "fetch caching_watcher = Some ex_fetch"
    and p3: "list_l ex_libs [res ''urn:b1'', res ''urn:b2''] ''urn:inbox''
               (the_fetchOptions caching_watcher) = Inr [res ''urn:b1'', res ''urn:b2'']"
    and p4: "fetch_and_parse ex_libs [res ''urn:b1'', res ''urn:b2''] ex_fetch (res ''urn:b1'')
               = Some (Inr ex_n1)"
    and p5: "fetch_and_parse ex_libs [res ''urn:b1'', res ''urn:b2''] ex_fetch (res ''urn:b2'')
               = Some (Inr ex_n2)"
    and p6: "url (res ''urn:b1'') \<noteq> url (res ''urn:b2'')"
    and p7: "id_n ex_n1 = id_n ex_n2"
    by simp_all
  have p8: "\<not> has Map.empty (Some (url (res ''urn:b1'')))"
    and p9: "\<not> has Map.empty (Some (url (res ''urn:b2'')))"
    and p10: "\<not> has Map.empty (id_n ex_n1)"
    by (simp_all add: has_def store_get_def falsy_bool_def)
  from strategy_chooses_key [OF p1 p2 p3 p4 p5 p6 p7 p8 p9 p10,
      of "res ''urn:b1''" ex_n1 "''activity''"]
  show ?thesis by simp
qed

subsection \<open>A failing item\<close>

text \<open>
  C4 (as amended). When the listing is \<open>pre @ bad # post\<close>, the items \<open>pre\<close> are processed
  and \<open>bad\<close> fails to fetch or to parse with the error \<open>e\<close>, the tick rejects with \<open>e\<close>:
  the watcher is as the items \<open>pre\<close> left it (with the flag set if \<open>stop()\<close> was called
  meanwhile), so nothing of \<open>post\<close> is processed; and the schedule, which awaits the
  tick, is rejected with \<open>e\<close>, so no later round runs.
\<close>

theorem failing_item_ends_tick_and_schedule:
  assumes "list_l L (world r) u (the_fetchOptions this) = Inr (pre @ bad # post)"
    and "process_items L (world r) (strategy_or_default sa) (this\<lparr>stopPolling := False\<rparr>) pre
           = (t, Done)"
    and "fetch this = Some f"
    and "fetch_and_parse L (world r) f bad = Some (Inl e)"
  shows "\<exists>t'. tick L u (strategy_or_default sa) (world r) (stop_in_tick r)
                 (this\<lparr>stopPolling := False\<rparr>) = (t', Threw e) \<and>
              start L u sa (r # rs) this = (t', Rejected e) \<and>
              (t' = t \<or> t' = stop t)"
proof -
  let ?w0 = "this\<lparr>stopPolling := False\<rparr>"
  let ?s = "strategy_or_default sa"
  from process_items_summary [OF assms(2)] obtain ps where
    "summary L (world r) ?s ?w0 pre t ps" ..
  then have "fetch t = Some f" using assms(3) by (simp add: summary_fields(1))
  then have "process_item L (world r) ?s t bad = (t, Threw e)"
    using assms(4) by (simp add: process_item_def)
  then have "process_items L (world r) ?s ?w0 (pre @ bad # post) = (t, Threw e)"
    using assms(2) by (simp add: process_items_append)
  then have none: "tick L u ?s (world r) None ?w0 = (t, Threw e)"
    using assms(1) by (simp add: tick_def the_fetchOptions_def)
  have "tick L u ?s (world r) (stop_in_tick r) ?w0 = (t, Threw e) \<or>
        tick L u ?s (world r) (stop_in_tick r) ?w0 = (stop t, Threw e)"
  proof (cases "stop_in_tick r")
    case None
    with none show ?thesis by simp
  next
    case (Some j)
    with tick_stop_in_tick [OF none, of j] show ?thesis by auto
  qed
  then show ?thesis by (auto simp: start_Cons)
qed

theorem failing_item_ends_tick_and_schedule_witness:
  "\<exists>t'. start ex_libs ''urn:inbox'' None
          (quiet [res ''urn:b1'', res ''urn:bad'', res ''urn:b3''] # [quiet [res ''urn:b3'']])
          caching_watcher = (t', Rejected (Error ''fetch failed'')) \<and>
        trace t' = [Emit ex_n1, Put (Some ''urn:n1'')]"
proof -
  let ?t = "fst (process_items ex_libs [res ''urn:b1'', res ''urn:bad'', res ''urn:b3'']
                   ''activity'' (caching_watcher\<lparr>stopPolling := False\<rparr>) [res ''urn:b1''])"
  have a1: "list_l ex_libs (world (quiet [res ''urn:b1'', res ''urn:bad'', res ''urn:b3'']))
              ''urn:inbox'' (the_fetchOptions caching_watcher)
            = Inr ([res ''urn:b1''] @ res ''urn:bad'' # [res ''urn:b3''])"
    by simp
  have a2: "process_items ex_libs (world (quiet [res ''urn:b1'', res ''urn:bad'', res ''urn:b3'']))
              (strategy_or_default None) (caching_watcher\<lparr>stopPolling := False\<rparr>)
              [res ''urn:b1''] = (?t, Done)"
    by (simp add: run_defs)
  have a3: "fetch caching_watcher = Some ex_fetch" by simp
  have a4: "fetch_and_parse ex_libs (world (quiet [res ''urn:b1'', res ''urn:bad'', res ''urn:b3'']))
              ex_fetch (res ''urn:bad'') = Some (Inl (Error ''fetch failed''))"
    by simp
  have tr: "trace ?t = [Emit ex_n1, Put (Some ''urn:n1'')]" by (simp add: run_defs)
  from failing_item_ends_tick_and_schedule [OF a1 a2 a3 a4, of "[quiet [res ''urn:b3'']]"] tr
  show ?thesis by auto
qed

text \<open>
  C4 as stated has the first and the third of three resources emitted when the second
  fails to fetch. Here \<open>urn:b3\<close> fetches and parses, and listed alone it is emitted; listed
  after \<open>urn:bad\<close> it is not: the tick ends at \<open>urn:bad\<close> with the first event only, and the
  schedule ends with it, so the next round, which lists \<open>urn:b3\<close> again, never runs.
\<close>

theorem failing_item_counterexample:
  "fetch_and_parse ex_libs [res ''urn:b1'', res ''urn:bad'', res ''urn:b3''] ex_fetch
     (res ''urn:b3'') = Some (Inr ex_n3) \<and>
   tick ex_libs ''urn:inbox'' ''activity'' [res ''urn:b3''] None caching_watcher
     = (caching_watcher\<lparr>trace := [Emit ex_n3, Put None],
                         db := Some (Map.empty(None \<mapsto> True))\<rparr>, Done) \<and>
   snd (tick ex_libs ''urn:inbox'' ''activity'' [res ''urn:b1'', res ''urn:bad'', res ''urn:b3'']
          None caching_watcher) = Threw (Error ''fetch failed'') \<and>
   trace (fst (tick ex_libs ''urn:inbox'' ''activity''
                 [res ''urn:b1'', res ''urn:bad'', res ''urn:b3''] None caching_watcher))
     = [Emit ex_n1, Put (Some ''urn:n1'')] \<and>
   snd (start ex_libs ''urn:inbox'' None
          [quiet [res ''urn:b1'', res ''urn:bad'', res ''urn:b3''], quiet [res ''urn:b3'']]
          caching_watcher) = Rejected (Error ''fetch failed'') \<and>
   trace (fst (start ex_libs ''urn:inbox'' None
          [quiet [res ''urn:b1'', res ''urn:bad'', res ''urn:b3''], quiet [res ''urn:b3'']]
          caching_watcher)) = [Emit ex_n1, Put (Some ''urn:n1'')]"
  by (simp add: run_defs)

subsection \<open>stop and start\<close>

text \<open>
  C5. When \<open>stop()\<close> is called during a tick, after any number \<open>k\<close> of its items, and the
  tick left alone would complete in the state \<open>t\<close>: the schedule ends \<open>Stopped\<close> in the
  state \<open>t\<close> with the flag set, so the tick did all it does, and the rounds \<open>rs\<close> that
  would follow have no part in the result. A later \<open>start\<close> on that watcher clears the
  flag and runs the tick of its first round: after that round the watcher is as that
  tick leaves \<open>t\<close>, and the schedule is \<open>Polling\<close>.
\<close>

theorem stop_lets_tick_finish:
  assumes "stop_in_tick r = Some k"
    and "tick L u (strategy_or_default sa) (world r) None (this\<lparr>stopPolling := False\<rparr>) = (t, Done)"
    and "stop_in_tick r' = None" and "\<not> stop_in_delay r'"
    and "tick L u' (strategy_or_default sa') (world r') None t = (t', Done)"
  shows "start L u sa (r # rs) this = (stop t, Stopped) \<and> stopPolling (stop t) \<and>
         start L u' sa' [r'] (stop t) = (t', Polling) \<and> \<not> stopPolling t'"
proof -
  have flag: "\<not> stopPolling t" using tick_None_flag [OF assms(2)] by simp
  have "tick L u (strategy_or_default sa) (world r) (stop_in_tick r)
          (this\<lparr>stopPolling := False\<rparr>) = (stop t, Done)"
    using tick_Done_stopped [OF assms(2)] assms(1) by simp
  then have one: "start L u sa (r # rs) this = (stop t, Stopped)"
    by (simp add: start_Cons)
  have clear: "(stop t)\<lparr>stopPolling := False\<rparr> = t"
    using flag by (simp add: stop_def)
  have flag': "\<not> stopPolling t'" using tick_None_flag [OF assms(5)] flag by simp
  have two: "start L u' sa' [r'] (stop t) = (t', Polling)"
    using assms(3,4,5) flag' by (simp add: start_Cons clear)
  from one two flag' show ?thesis by simp
qed

theorem stop_lets_tick_finish_witness:
  "start ex_libs ''urn:inbox'' None
     (\<lparr>world = [res ''urn:b1'', res ''urn:b3''], stop_in_tick = Some 1, stop_in_delay = False\<rparr>
       # [quiet [res ''urn:b5'']]) caching_watcher
     = (stop (fst (tick ex_libs ''urn:inbox'' ''activity'' [res ''urn:b1'', res ''urn:b3''] None
                     caching_watcher)), Stopped) \<and>
   trace (stop (fst (tick ex_libs ''urn:inbox'' ''activity'' [res ''urn:b1'', res ''urn:b3'']
                       None caching_watcher)))
     = [Emit ex_n1, Put (Some ''urn:n1''), Emit ex_n3, Put None] \<and>
   snd (start ex_libs ''urn:inbox'' None [quiet [res ''urn:b5'']]
     (stop (fst (tick ex_libs ''urn:inbox'' ''activity'' [res ''urn:b1'', res ''urn:b3''] None
                     caching_watcher)))) = Polling \<and>
   trace (fst (start ex_libs ''urn:inbox'' None [quiet [res ''urn:b5'']]
     (stop (fst (tick ex_libs ''urn:inbox'' ''activity'' [res ''urn:b1'', res ''urn:b3''] None
                     caching_watcher)))))
     = [Emit ex_n1, Put (Some ''urn:n1''), Emit ex_n3, Put None, Emit ex_n5, Put (Some ''urn:n5'')]"
proof -
  let ?r = "\<lparr>world = [res ''urn:b1'', res ''urn:b3''], stop_in_tick = Some (1::nat),
             stop_in_delay = False\<rparr>"
  let ?t = "fst (tick ex_libs ''urn:inbox'' ''activity'' [res ''urn:b1'', res ''urn:b3''] None
                     caching_watcher)"
  let ?t' = "fst (tick ex_libs ''urn:inbox'' ''activity'' [res ''urn:b5''] None ?t)"
  have a1: "stop_in_tick ?r = Some 1" by simp
  have a2: "tick ex_libs ''urn:inbox'' (strategy_or_default None) (world ?r) None
              (caching_watcher\<lparr>stopPolling := False\<rparr>) = (?t, Done)"
    by (simp add: run_defs caching_watcher_def ex_watcher_def)
  have a3: "stop_in_tick (quiet [res ''urn:b5'']) = None" by simp
  have a4: "\<not> stop_in_delay (quiet [res ''urn:b5''])" by simp
  have a5: "tick ex_libs ''urn:inbox'' (strategy_or_default None) (world (quiet [res ''urn:b5'']))
              None ?t = (?t', Done)"
    by (simp add: run_defs)
  have tr: "trace ?t = [Emit ex_n1, Put (Some ''urn:n1''), Emit ex_n3, Put None]"
    by (simp add: run_defs)
  have tr': "trace ?t' = [Emit ex_n1, Put (Some ''urn:n1''), Emit ex_n3, Put None,
                          Emit ex_n5, Put (Some ''urn:n5'')]"
    by (simp add: run_defs)
  from stop_lets_tick_finish [OF a1 a2 a3 a4 a5, of "[quiet [res ''urn:b5'']]"] tr tr'
  show ?thesis by simp
qed

subsection \<open>sendNotification\<close>

text \<open>
  C8. \<open>sendNotification\<close> returns a result exactly when the login gives a session, the
  notification serializes to a body, and the session's fetch, given the request to the
  inbox url with method POST, that body and the one header \<open>content-type:
  application/ld+json\<close>, gives a response; the result is then \<open>success\<close> = the response's
  \<open>ok\<close> and \<open>location\<close> = its \<open>Location\<close> header, \<open>null\<close> when absent.
\<close>

theorem sendNotification_posts:
  "sendNotification L w n inboxUrl options = Some (Inr r) \<longleftrightarrow>
     (\<exists>session body resp.
        login L (or_else (authUrl options) (or_else (Some (idp options)) inboxUrl)) options
          = Inr session \<and>
        serialize L n = Some (Inr body) \<and>
        s_fetch session w
          \<lparr>req_url = inboxUrl, req_method = ''POST'', req_body = Some body,
           req_headers = [(''content-type'', ''application/ld+json'')]\<rparr> = Inr resp \<and>
        r = \<lparr>success = ok resp, location = headers_get resp ''location''\<rparr>)"
  by (auto simp: sendNotification_def split: sum.splits option.splits)

theorem sendNotification_posts_witness:
  "sendNotification ex_libs [] ex_n1 ''urn:inbox'' ex_options
     = Some (Inr \<lparr>success = True, location = Some ''urn:inbox/1''\<rparr>) \<and>
   serialize ex_libs ex_n1 = Some (Inr ''{}'') \<and>
   ex_fetch [] \<lparr>req_url = ''urn:inbox'', req_method = ''POST'', req_body = Some ''{}'',
                 req_headers = [(''content-type'', ''application/ld+json'')]\<rparr>
     = Inr \<lparr>ok = True, resp_url = ''urn:inbox'',
            headers_get = (\<lambda>h. if h = ''location'' then Some ''urn:inbox/1'' else None),
            body_text = Inr []\<rparr>"
proof -
  have lg: "login ex_libs (or_else (authUrl ex_options) (or_else (Some (idp ex_options)) ''urn:inbox''))
              ex_options = Inr \<lparr>s_fetch = ex_fetch, s_webId = Some ''alice''\<rparr>"
    by (simp add: login_def ex_libs_def ex_options_def)
  have sr: "serialize ex_libs ex_n1 = Some (Inr ''{}'')"
    by (simp add: serialize_def ex_libs_def)
  have ft: "ex_fetch [] \<lparr>req_url = ''urn:inbox'', req_method = ''POST'', req_body = Some ''{}'',
                 req_headers = [(''content-type'', ''application/ld+json'')]\<rparr>
     = Inr \<lparr>ok = True, resp_url = ''urn:inbox'',
            headers_get = (\<lambda>h. if h = ''location'' then Some ''urn:inbox/1'' else None),
            body_text = Inr []\<rparr>"
    by (simp add: ex_fetch_def)
  have "sendNotification ex_libs [] ex_n1 ''urn:inbox'' ex_options
     = Some (Inr \<lparr>success = True, location = Some ''urn:inbox/1''\<rparr>)"
    using sendNotification_posts
      [of ex_libs "[]" ex_n1 "''urn:inbox''" ex_options
          "\<lparr>success = True, location = Some ''urn:inbox/1''\<rparr>"] lg sr ft
    by simp
  with sr ft show ?thesis by simp
qed

end
